theory Spec2Isabelle
  imports Main
begin

section \<open>JavaScript values, paths and errors\<close>

text \<open>
  The template tree handled by \<open>transformVueFile\<close> is a plain JavaScript object graph.
  It is embedded as a tree of values: an object is an association list in key insertion
  order (a JavaScript object has each key once), an array is a list. Back references
  (\<open>parent\<close>) are ordinary fields of that tree; the structural diff never follows them.
\<close>

datatype jsval =
    JUndefined
  | JNull
  | JBool bool
  | JNum int
  | JStr string
  | JArr "jsval list"
  | JObj "(string \<times> jsval) list"

text \<open>A path step of the diff library: a property name or an array index (\<open>string | number\<close>).\<close>

datatype seg = Key string | Idx nat

datatype error = ParseError string | TypeError | RangeError | PluginError string | PatchError string

section \<open>Owning node path of a change entry\<close>

text \<open>\<open>Array.prototype.pop\<close>: removes the last element; an empty array stays empty.\<close>

definition pop :: "'a list \<Rightarrow> 'a list" where
  "pop xs = butlast xs"

text \<open>\<open>xs.at(-k)\<close> for \<open>k > 0\<close>: the k-th element from the end, \<open>undefined\<close> (None) when there is none.\<close>

definition at_neg :: "'a list \<Rightarrow> nat \<Rightarrow> 'a option" where
  "at_neg xs k = (if 0 < k \<and> k \<le> length xs then Some (xs ! (length xs - k)) else None)"

text \<open>
  Lines 112-125 of \<open>transformVueFile\<close>: \<open>[...p.path ?? []]\<close>, one \<open>pop\<close>, then the two
  special cases, each tested on the path as it is at that moment.
\<close>

definition owning_path :: "seg list option \<Rightarrow> seg list" where
  "owning_path p =
     (let path0 = (case p of None \<Rightarrow> [] | Some q \<Rightarrow> q);
          path1 = pop path0;
          path2 = (if at_neg path1 1 = Some (Key ''startTag'') then pop path1 else path1);
          path3 = (if at_neg path2 2 = Some (Key ''key'') then pop path2 else path2)
      in path3)"

section \<open>Property access\<close>

text \<open>\<open>String(i)\<close> of an array index: its decimal digits.\<close>

definition digit :: "nat \<Rightarrow> char" where
  "digit d = char_of (48 + d)"

function dec :: "nat \<Rightarrow> string" where
  "dec n = (if n < 10 then [digit n] else dec (n div 10) @ [digit (n mod 10)])"
  by pat_completeness auto
termination
  by (relation "measure (\<lambda>n. n)") auto

text \<open>The property key a path step denotes (lodash \<open>toKey\<close>, JavaScript's own coercion).\<close>

definition seg_key :: "seg \<Rightarrow> string" where
  "seg_key s = (case s of Key k \<Rightarrow> k | Idx i \<Rightarrow> dec i)"

definition lookup :: "(string \<times> jsval) list \<Rightarrow> string \<Rightarrow> jsval" where
  "lookup kvs k = (case map_of kvs k of None \<Rightarrow> JUndefined | Some v \<Rightarrow> v)"

text \<open>The index below \<open>n\<close> that a key spells, if any.\<close>

definition index_of_key :: "string \<Rightarrow> nat \<Rightarrow> nat option" where
  "index_of_key k n = find (\<lambda>i. dec i = k) [0..<n]"

text \<open>
  \<open>v[key]\<close> on a value that is neither \<open>null\<close> nor \<open>undefined\<close>, reading own data
  properties: keys of an object, indices and \<open>length\<close> of an array or a string. Members
  inherited from a prototype (methods) are outside this embedding.
\<close>

fun js_prop :: "jsval \<Rightarrow> seg \<Rightarrow> jsval" where
  "js_prop (JObj kvs) s = lookup kvs (seg_key s)"
| "js_prop (JArr xs) s =
     (if seg_key s = ''length'' then JNum (int (length xs))
      else case index_of_key (seg_key s) (length xs) of
             Some i \<Rightarrow> xs ! i
           | None \<Rightarrow> JUndefined)"
| "js_prop (JStr cs) s =
     (if seg_key s = ''length'' then JNum (int (length cs))
      else case index_of_key (seg_key s) (length cs) of
             Some i \<Rightarrow> JStr [cs ! i]
           | None \<Rightarrow> JUndefined)"
| "js_prop _ s = JUndefined"

definition nullish :: "jsval \<Rightarrow> bool" where
  "nullish v = (v = JUndefined \<or> v = JNull)"

text \<open>A member expression \<open>v.key\<close>: reading a property of \<open>null\<close> or \<open>undefined\<close> throws.\<close>

definition js_member :: "jsval \<Rightarrow> seg \<Rightarrow> error + jsval" where
  "js_member v s = (if nullish v then Inl TypeError else Inr (js_prop v s))"

text \<open>
  lodash \<open>get(object, path)\<close> with an array path (\<open>baseGet\<close>): walk while the object is
  not nullish; the result is \<open>undefined\<close> when the walk stops early, and also for the
  empty path (\<open>index && index == length\<close>).
\<close>

fun baseGet :: "jsval \<Rightarrow> seg list \<Rightarrow> jsval" where
  "baseGet obj [] = obj"
| "baseGet obj (s # ss) = (if nullish obj then JUndefined else baseGet (js_prop obj s) ss)"

definition get :: "jsval \<Rightarrow> seg list \<Rightarrow> jsval" where
  "get obj pth = (if pth = [] then JUndefined else baseGet obj pth)"

section \<open>The structural diff (deep-diff)\<close>

text \<open>
  The change kinds of the diff library: \<open>N\<close> a property was added, \<open>D\<close> a property was
  deleted, \<open>E\<close> a value was edited, \<open>A\<close> an element was added to or removed from the end of
  an array (the entry's \<open>path\<close> is the array's, the element's place is \<open>index\<close>, and \<open>item\<close>
  is an entry of kind \<open>N\<close> or \<open>D\<close> for the element; of that entry the kind is kept).
\<close>

datatype diff_kind = KindN | KindD | KindE | KindA

record change =
  kind :: diff_kind
  path :: "seg list option"
  index :: "nat option"
  item :: "diff_kind option"

text \<open>An entry carries a \<open>path\<close> only when the path is not empty (\<open>if (path && path.length)\<close>).\<close>

definition entry :: "diff_kind \<Rightarrow> seg list \<Rightarrow> nat option \<Rightarrow> diff_kind option \<Rightarrow> change" where
  "entry k p i it = \<lparr>kind = k, path = (if p = [] then None else Some p), index = i, item = it\<rparr>"

text \<open>
  The recursion of the library's \<open>deepDiff(lhs, rhs, changes, prefilter, path, key)\<close> on two
  values that are both present. The prefilter is asked before a key is entered. Arrays are
  compared by position from the last common index down, after one \<open>A\<close> entry per surplus
  element; objects key by key in the left object's key order, then the keys only the right
  object has (a key that is the empty string is skipped there: \<open>if (k)\<close>).
\<close>

fun deepDiff :: "(seg \<Rightarrow> bool) \<Rightarrow> seg list \<Rightarrow> jsval \<Rightarrow> jsval \<Rightarrow> change list"
  and diffElems :: "(seg \<Rightarrow> bool) \<Rightarrow> seg list \<Rightarrow> nat \<Rightarrow> jsval list \<Rightarrow> jsval list \<Rightarrow> change list"
  and diffProps :: "(seg \<Rightarrow> bool) \<Rightarrow> seg list \<Rightarrow> (string \<times> jsval) list \<Rightarrow> (string \<times> jsval) list \<Rightarrow> change list"
where
  "deepDiff pre cur (JArr xs) rhs =
     (case rhs of
        JArr ys \<Rightarrow>
          map (\<lambda>i. entry KindA cur (Some i) (Some KindN)) (rev [length xs..<length ys])
          @ map (\<lambda>j. entry KindA cur (Some j) (Some KindD)) (rev [length ys..<length xs])
          @ diffElems pre cur 0 xs ys
      | _ \<Rightarrow> [entry KindE cur None None])"
| "deepDiff pre cur (JObj kvs) rhs =
     (case rhs of
        JObj rkvs \<Rightarrow>
          diffProps pre cur kvs rkvs
          @ concat (map (\<lambda>k. if k \<in> set (map fst kvs) \<or> k = [] \<or> pre (Key k) then []
                               else [entry KindN (cur @ [Key k]) None None])
                        (map fst rkvs))
      | _ \<Rightarrow> [entry KindE cur None None])"
| "deepDiff pre cur lhs rhs = (if lhs = rhs then [] else [entry KindE cur None None])"
| "diffElems pre cur i [] ys = []"
| "diffElems pre cur i (x # xs) ys =
     (case ys of
        [] \<Rightarrow> []
      | y # ys' \<Rightarrow>
          diffElems pre cur (Suc i) xs ys'
          @ (if pre (Idx i) then [] else deepDiff pre (cur @ [Idx i]) x y))"
| "diffProps pre cur [] rkvs = []"
| "diffProps pre cur ((k, v) # kvs) rkvs =
     (if pre (Key k) then []
      else case map_of rkvs k of
             Some r \<Rightarrow> deepDiff pre (cur @ [Key k]) v r
           | None \<Rightarrow> [entry KindD (cur @ [Key k]) None None])
     @ diffProps pre cur kvs rkvs"

text \<open>
  The library's entry point: at the top level a value counts as present when it is not
  \<open>undefined\<close>; the result is \<open>undefined\<close> (None) when there is no change.
\<close>

definition diff :: "jsval \<Rightarrow> jsval \<Rightarrow> (seg \<Rightarrow> bool) \<Rightarrow> change list option" where
  "diff lhs rhs pre =
     (let changes =
            (if lhs = JUndefined \<and> rhs = JUndefined then []
             else if lhs = JUndefined then [entry KindN [] None None]
             else if rhs = JUndefined then [entry KindD [] None None]
             else deepDiff pre [] lhs rhs)
      in if changes = [] then None else Some changes)"

text \<open>
  \<open>ignoreProperties\<close> (lines 21-26) and the prefilter \<open>(_, name) => !!ignoreProperties[name]\<close>.
  The table is an object literal, so the lookup also finds the members every object
  inherits from \<open>Object.prototype\<close>; all of them are truthy.
\<close>

definition ignoreProperties :: "string list" where
  "ignoreProperties = [''parent'', ''loc'', ''range'', ''variables'']"

definition objectPrototypeKeys :: "string list" where
  "objectPrototypeKeys =
     [''constructor'', ''hasOwnProperty'', ''isPrototypeOf'', ''propertyIsEnumerable'',
      ''toLocaleString'', ''toString'', ''valueOf'', ''__proto__'',
      ''__defineGetter__'', ''__defineSetter__'', ''__lookupGetter__'', ''__lookupSetter__'']"

definition prefilter :: "seg \<Rightarrow> bool" where
  "prefilter name = (seg_key name \<in> set ignoreProperties \<or> seg_key name \<in> set objectPrototypeKeys)"

section \<open>Strings\<close>

definition nl :: char where
  "nl = CHR 0x0A"

definition str_startsWith :: "string \<Rightarrow> string \<Rightarrow> bool" where
  "str_startsWith s p = (take (length p) s = p)"

definition str_endsWith :: "string \<Rightarrow> string \<Rightarrow> bool" where
  "str_endsWith s p = (length p \<le> length s \<and> drop (length s - length p) s = p)"

fun str_includes :: "string \<Rightarrow> string \<Rightarrow> bool" where
  "str_includes [] p = (p = [])"
| "str_includes (c # cs) p = (str_startsWith (c # cs) p \<or> str_includes cs p)"

text \<open>\<open>s.slice(start, end)\<close> with integer or missing (\<open>undefined\<close>) bounds.\<close>

definition slice_bound :: "nat \<Rightarrow> int \<Rightarrow> nat" where
  "slice_bound len i = (if i < 0 then nat (max (int len + i) 0) else min (nat i) len)"

definition slice :: "string \<Rightarrow> int option \<Rightarrow> int option \<Rightarrow> string" where
  "slice s a b =
     (let from = (case a of None \<Rightarrow> 0 | Some i \<Rightarrow> slice_bound (length s) i);
          to = (case b of None \<Rightarrow> length s | Some i \<Rightarrow> slice_bound (length s) i)
      in take (to - from) (drop from s))"

definition marker :: string where
  "marker = ''/* METAMORPH_START */''"

text \<open>
  \<open>.replace(/\/\* METAMORPH_START \*\/\n+/g, '\n')\<close>: from left to right, every marker
  comment that is followed by at least one newline is replaced, together with all the
  newlines after it, by one newline.
\<close>

function replace_marker :: "string \<Rightarrow> string" where
  "replace_marker s =
     (if s = [] then []
      else if str_startsWith s marker \<and> str_startsWith (drop (length marker) s) [nl]
      then nl # replace_marker (dropWhile (\<lambda>c. c = nl) (drop (length marker) s))
      else hd s # replace_marker (tl s))"
  by pat_completeness auto
termination
proof (relation "measure length")
  show "wf (measure length)" by simp
next
  fix s :: string
  assume "s \<noteq> []"
  then show "(tl s, s) \<in> measure length" by (cases s) auto
next
  fix s :: string
  assume "s \<noteq> []"
  have "length (dropWhile (\<lambda>c. c = nl) (drop (length marker) s)) \<le> length (drop (length marker) s)"
    by (rule length_dropWhile_le)
  moreover have "length (drop (length marker) s) < length s"
    using \<open>s \<noteq> []\<close> by (simp add: marker_def)
  ultimately show "(dropWhile (\<lambda>c. c = nl) (drop (length marker) s), s) \<in> measure length"
    by simp
qed

section \<open>External collaborators\<close>

text \<open>
  The parsed single-file component as far as the code reads it: \<open>templateBody\<close> is
  \<open>None\<close> when the parser found no template body, and otherwise holds the document
  fragment that \<open>templateBody.parent\<close> refers to.
\<close>

record esprogram =
  templateBody :: "jsval option"

text \<open>
  The libraries and the repository's helper modules (\<open>./ast-helpers\<close>, \<open>./stringify\<close>)
  that the code calls, as parameters: the grammar parsers (vue-eslint-parser, recast), the
  \<open>findAll\<close> helper in its one use (all \<open>script\<close> elements of a document), the two renderers
  (\<open>recast.print(ast, recastOptions).code\<close>, where the argument may be \<open>undefined\<close>, and
  \<open>stringify\<close>; both are pure), and the replacement of original ranges that a
  MagicString performs when it is printed.
\<close>

record 'p externals =
  vueParse :: "string \<Rightarrow> error + esprogram"
  findAllScripts :: "jsval \<Rightarrow> jsval list"
  recastParse :: "string \<Rightarrow> error + 'p"
  recastPrint :: "'p option \<Rightarrow> string"
  stringify :: "jsval \<Rightarrow> string"
  splice :: "string \<Rightarrow> (jsval \<times> jsval \<times> string) list \<Rightarrow> error + string"

section \<open>MagicString\<close>

text \<open>
  A MagicString holds the original text and the \<open>update(start, end, content)\<close> calls made
  so far, all in original coordinates. Printed with no update it is the original text.
\<close>

record magic =
  original :: string
  updates :: "(jsval \<times> jsval \<times> string) list"

definition ms_new :: "string \<Rightarrow> magic" where
  "ms_new s = \<lparr>original = s, updates = []\<rparr>"

definition ms_update :: "magic \<Rightarrow> jsval \<Rightarrow> jsval \<Rightarrow> string \<Rightarrow> magic" where
  "ms_update ms st en content = ms\<lparr>updates := updates ms @ [(st, en, content)]\<rparr>"

definition ms_toString :: "'p externals \<Rightarrow> magic \<Rightarrow> error + string" where
  "ms_toString E ms =
     (if updates ms = [] then Inr (original ms) else splice E (original ms) (updates ms))"

section \<open>parseVue and parseTs\<close>

definition bind :: "error + 'a \<Rightarrow> ('a \<Rightarrow> error + 'b) \<Rightarrow> error + 'b" where
  "bind m f = (case m of Inl e \<Rightarrow> Inl e | Inr x \<Rightarrow> f x)"

text \<open>
  A source position read from the tree. The parser writes numbers there and no plugin has
  run yet; a position of any other type is outside this embedding and ends the parse.
\<close>

definition as_int :: "jsval \<Rightarrow> error + int option" where
  "as_int v = (case v of JNum n \<Rightarrow> Inr (Some n) | JUndefined \<Rightarrow> Inr None | _ \<Rightarrow> Inl TypeError)"

text \<open>\<open>el.children[0]?.range[k]\<close>: \<open>undefined\<close> when the element has no first child.\<close>

definition first_child_range :: "jsval \<Rightarrow> nat \<Rightarrow> error + jsval" where
  "first_child_range el k =
     bind (js_member el (Key ''children'')) (\<lambda>children.
     bind (js_member children (Idx 0)) (\<lambda>c0.
       if nullish c0 then Inr JUndefined
       else bind (js_member (js_prop c0 (Key ''range'')) (Idx k)) Inr))"

text \<open>\<open>'\n'.repeat(el.loc.start.line - 1)\<close>: a negative count is a RangeError.\<close>

definition blankLines :: "jsval \<Rightarrow> error + string" where
  "blankLines el =
     bind (js_member el (Key ''loc'')) (\<lambda>loc.
     bind (js_member loc (Key ''start'')) (\<lambda>start.
     bind (js_member start (Key ''line'')) (\<lambda>line.
       case line of
         JNum n \<Rightarrow> if n - 1 < 0 then Inl RangeError else Inr (replicate (nat (n - 1)) nl)
       | _ \<Rightarrow> Inl TypeError)))"

definition scriptSource :: "string \<Rightarrow> jsval \<Rightarrow> error + string" where
  "scriptSource text el =
     bind (blankLines el) (\<lambda>blank.
     bind (first_child_range el 0) (\<lambda>st.
     bind (first_child_range el 1) (\<lambda>en.
     bind (as_int st) (\<lambda>a.
     bind (as_int en) (\<lambda>b.
       Inr (blank @ slice text a b))))))"

fun mapM :: "('a \<Rightarrow> error + 'b) \<Rightarrow> 'a list \<Rightarrow> error + 'b list" where
  "mapM f [] = Inr []"
| "mapM f (x # xs) = bind (f x) (\<lambda>y. bind (mapM f xs) (\<lambda>ys. Inr (y # ys)))"

text \<open>The object \<open>parseVue\<close> returns (lines 126-129): \<open>{ vueAst, scriptAsts }\<close>.\<close>

record 'p parsed =
  vueAst :: esprogram
  scriptAsts :: "'p list"

definition template_suffix :: string where
  "template_suffix = nl # ''<template></template>''"

text \<open>The text \<open>parseVue\<close> hands to the parser (lines 97-101).\<close>

definition parser_input :: "string \<Rightarrow> string" where
  "parser_input text =
     (if \<not> str_includes text ''<template'' then text @ template_suffix else text)"

definition parseVue :: "'p externals \<Rightarrow> string \<Rightarrow> error + 'p parsed" where
  "parseVue E text =
     (let text' = parser_input text in
      bind (vueParse E text') (\<lambda>ast.
        case templateBody ast of
          None \<Rightarrow> Inl TypeError
        | Some doc \<Rightarrow>
            bind (mapM (\<lambda>el. bind (scriptSource text' el) (recastParse E)) (findAllScripts E doc))
              (\<lambda>asts. Inr \<lparr>vueAst = ast, scriptAsts = asts\<rparr>)))"

text \<open>
  Reading a property of the object \<open>parseVue\<close> returns. The object has the two properties
  of its literal and no other; any other name reads \<open>undefined\<close> (None).
\<close>

definition prop_program :: "'p parsed \<Rightarrow> string \<Rightarrow> esprogram option" where
  "prop_program r k = (if k = ''vueAst'' then Some (vueAst r) else None)"

definition prop_scripts :: "'p parsed \<Rightarrow> string \<Rightarrow> 'p list option" where
  "prop_scripts r k = (if k = ''scriptAsts'' then Some (scriptAsts r) else None)"

definition parseTs :: "'p externals \<Rightarrow> string \<Rightarrow> error + 'p" where
  "parseTs E text = recastParse E text"

section \<open>Plugins\<close>

text \<open>
  A plugin mutates what it is handed in place: the program objects, the array that holds
  them, and the template tree. A program object is known by its identity (a reference),
  and the store gives each object its present state, so that changing a program in place
  and putting another object into a slot of the array are different things.
\<close>

type_synonym ref = nat

type_synonym 'p store = "ref \<Rightarrow> 'p option"

definition nth_opt :: "'a list \<Rightarrow> nat \<Rightarrow> 'a option" where
  "nth_opt xs i = (if i < length xs then Some (xs ! i) else None)"

text \<open>Freshly parsed programs as objects: the k-th program is the object \<open>k\<close>.\<close>

definition alloc :: "'p list \<Rightarrow> 'p store" where
  "alloc ps = nth_opt ps"

definition refs_of :: "'p list \<Rightarrow> ref list" where
  "refs_of ps = [0..<length ps]"

text \<open>
  The context a plugin receives (\<open>utils\<close> is a constant and left out): the array
  \<open>scriptASTs\<close> by its elements (\<open>None\<close> when the caller hands over \<open>undefined\<close>), the
  program objects, the template tree or \<open>null\<close>, the file name and the options. A plugin
  returns a count and may throw: as a function it returns the error, or the count with
  the program objects, the elements of the array and the template tree as they are after
  the call.
\<close>

record ('p, 'o) plugin_context =
  ctx_scriptASTs :: "ref list option"
  ctx_programs :: "'p store"
  ctx_sfcAST :: jsval
  ctx_filename :: string
  ctx_opts :: 'o

record ('p, 'o) codemod =
  name :: string
  codemod_transform ::
    "('p, 'o) plugin_context \<Rightarrow> error + (int \<times> 'p store \<times> ref list \<times> jsval)"

record TransformResult =
  code :: string
  stats :: "(string \<times> int) list"

text \<open>
  The plugin loop of \<open>transformVueFile\<close> (lines 59-69). Every plugin is handed the same
  array \<open>scriptASTs\<close> and the same tree, \<open>templateAst ?? null\<close>; where the caller holds no
  array or no tree there is nothing of it to mutate.
\<close>

fun run_codemods ::
  "('p, 'o) codemod list \<Rightarrow> string \<Rightarrow> 'o \<Rightarrow> ref list option \<Rightarrow> 'p store \<Rightarrow> jsval
     \<Rightarrow> (string \<times> int) list
     \<Rightarrow> error + ((string \<times> int) list \<times> ref list option \<times> 'p store \<times> jsval)" where
  "run_codemods [] fname os scripts programs tmpl acc = Inr (acc, scripts, programs, tmpl)"
| "run_codemods (c # cs) fname os scripts programs tmpl acc =
     (case codemod_transform c
             \<lparr>ctx_scriptASTs = scripts, ctx_programs = programs,
              ctx_sfcAST = (if nullish tmpl then JNull else tmpl),
              ctx_filename = fname, ctx_opts = os\<rparr> of
        Inl e \<Rightarrow> Inl e
      | Inr (count, programs', scripts', tmpl') \<Rightarrow>
          run_codemods cs fname os
            (case scripts of None \<Rightarrow> None | Some _ \<Rightarrow> Some scripts')
            programs'
            (if nullish tmpl then tmpl else tmpl')
            (acc @ [(name c, count)]))"

section \<open>Re-rendering the script hosts\<close>

definition js_truthy :: "jsval \<Rightarrow> bool" where
  "js_truthy v = (case v of JUndefined \<Rightarrow> False | JNull \<Rightarrow> False | JBool b \<Rightarrow> b
                  | JNum n \<Rightarrow> n \<noteq> 0 | JStr cs \<Rightarrow> cs \<noteq> [] | _ \<Rightarrow> True)"

text \<open>Assignment \<open>obj[key] = v\<close> to a property an object or array already has or can take.\<close>

fun set_key :: "(string \<times> jsval) list \<Rightarrow> string \<Rightarrow> jsval \<Rightarrow> (string \<times> jsval) list" where
  "set_key [] k v = [(k, v)]"
| "set_key ((k', v') # kvs) k v = (if k' = k then (k, v) # kvs else (k', v') # set_key kvs k v)"

fun js_set :: "jsval \<Rightarrow> seg \<Rightarrow> jsval \<Rightarrow> jsval" where
  "js_set (JObj kvs) s v = JObj (set_key kvs (seg_key s) v)"
| "js_set (JArr xs) s v =
     (case index_of_key (seg_key s) (length xs) of Some i \<Rightarrow> JArr (xs[i := v]) | None \<Rightarrow> JArr xs)"
| "js_set w s v = w"

text \<open>
  The test of lines 77-80 on a node whose parent is the root. \<open>node.children[0]\<close> throws
  when \<open>node.children\<close> is nullish; \<open>?.type\<close> of a nullish first child is \<open>undefined\<close>.
\<close>

definition is_script_host :: "jsval \<Rightarrow> error + bool" where
  "is_script_host node =
     (if js_prop node (Key ''type'') = JStr ''VElement'' \<and> js_prop node (Key ''name'') = JStr ''script''
      then bind (js_member (js_prop node (Key ''children'')) (Idx 0)) (\<lambda>c0.
             Inr (\<not> nullish c0 \<and> js_prop c0 (Key ''type'') = JStr ''VText''))
      else Inr False)"

text \<open>
  \<open>scriptASTs[i]\<close>: throws when \<open>scriptASTs\<close> is \<open>undefined\<close>; past the end of the array it is
  \<open>undefined\<close> (None); otherwise it is the program object in slot \<open>i\<close> as it is now.
\<close>

definition script_at :: "ref list option \<Rightarrow> 'p store \<Rightarrow> nat \<Rightarrow> error + 'p option" where
  "script_at scripts programs i =
     (case scripts of
        None \<Rightarrow> Inl TypeError
      | Some refs \<Rightarrow> Inr (case nth_opt refs i of None \<Rightarrow> None | Some r \<Rightarrow> programs r))"

text \<open>Lines 81-86: the printed script, the marker replaced, wrapped in newlines.\<close>

definition newCode :: "'p externals \<Rightarrow> ref list option \<Rightarrow> 'p store \<Rightarrow> nat \<Rightarrow> error + string" where
  "newCode E scripts programs i =
     bind (script_at scripts programs i) (\<lambda>p. Inr (replace_marker (recastPrint E p)))"

definition host_text :: "string \<Rightarrow> string" where
  "host_text c = (if str_startsWith c [nl] then [] else [nl]) @ c @ [nl]"

text \<open>\<open>node.children[0].value = ...\<close> on a script host.\<close>

definition overwrite_host :: "jsval \<Rightarrow> string \<Rightarrow> jsval" where
  "overwrite_host node txt =
     (let children = js_prop node (Key ''children'');
          c0 = js_prop children (Idx 0)
      in js_set node (Key ''children'') (js_set children (Idx 0) (js_set c0 (Key ''value'') (JStr txt))))"

text \<open>
  Modelled from the spec: \<open>traverseNodes\<close> of \<open>./ast\<close>, which ``visits every node in
  document order, depth-first'' and hands each node to \<open>enterNode\<close> with its parent.
  \<open>setParents\<close> (builders.ts) is that traversal writing \<open>innerNode.parent = parent\<close>, so
  after it the nodes whose \<open>parent\<close> is the root are the elements of the root's
  \<open>children\<close>, met in that order. The embedding leaves the \<open>parent\<close> fields as they stand:
  the test \<open>node.parent === templateAst\<close> is decided by the node's place in the tree, and
  the diff skips the field. The counter \<open>i\<close> moves on at every host.
\<close>

fun rerender_children ::
  "'p externals \<Rightarrow> ref list option \<Rightarrow> 'p store \<Rightarrow> nat \<Rightarrow> jsval list \<Rightarrow> error + jsval list" where
  "rerender_children E scripts programs i [] = Inr []"
| "rerender_children E scripts programs i (node # rest) =
     bind (is_script_host node) (\<lambda>host.
       if host
       then bind (newCode E scripts programs i) (\<lambda>c.
            bind (rerender_children E scripts programs (Suc i) rest) (\<lambda>rest'.
              Inr (overwrite_host node (host_text c) # rest')))
       else bind (rerender_children E scripts programs i rest) (\<lambda>rest'. Inr (node # rest')))"

definition rerender_scripts ::
  "'p externals \<Rightarrow> ref list option \<Rightarrow> 'p store \<Rightarrow> jsval \<Rightarrow> error + jsval" where
  "rerender_scripts E scripts programs templateAst =
     (case js_prop templateAst (Key ''children'') of
        JArr nodes \<Rightarrow>
          bind (rerender_children E scripts programs 0 nodes) (\<lambda>nodes'.
            Inr (js_set templateAst (Key ''children'') (JArr nodes')))
      | _ \<Rightarrow> Inr templateAst)"

section \<open>Reducing the change set\<close>

record ChangedNode =
  cn_path :: "seg list"
  cn_node :: jsval
  cn_start :: jsval
  cn_end :: jsval

text \<open>
  The callback of \<open>diff.map\<close> (lines 111-144), with the variable \<open>rootNodeChanged\<close> it
  assigns passed along. \<open>originalNode.range[0]\<close> throws when the node or its range is
  nullish.
\<close>

fun changedNodes ::
  "jsval \<Rightarrow> jsval \<Rightarrow> bool \<Rightarrow> change list \<Rightarrow> error + (bool \<times> ChangedNode list)" where
  "changedNodes originalTemplate templateAst rootNodeChanged [] = Inr (rootNodeChanged, [])"
| "changedNodes originalTemplate templateAst rootNodeChanged (p # ps) =
     (let pth = owning_path (path p);
          rootNodeChanged' = (if length pth \<le> 3 \<and> kind p \<noteq> KindE then True else rootNodeChanged);
          originalNode = (if rootNodeChanged' then originalTemplate else get originalTemplate pth)
      in bind (js_member originalNode (Key ''range'')) (\<lambda>range.
         bind (js_member range (Idx 0)) (\<lambda>st.
         bind (js_member range (Idx 1)) (\<lambda>en.
         bind (changedNodes originalTemplate templateAst rootNodeChanged' ps) (\<lambda>(flag, nodes).
           Inr (flag,
                \<lparr>cn_path = pth,
                 cn_node = (if pth = [] then templateAst else get templateAst pth),
                 cn_start = st, cn_end = en\<rparr> # nodes))))))"

text \<open>The comparator handed to \<open>uniqWith\<close> (lines 160-169).\<close>

definition comparator :: "ChangedNode \<Rightarrow> ChangedNode \<Rightarrow> bool" where
  "comparator a b =
     (if length (cn_path a) = length (cn_path b) then cn_path a = cn_path b
      else let lesser = (if length (cn_path a) < length (cn_path b) then a else b);
               greater = (if lesser = a then b else a)
           in cn_path lesser = take (length (cn_path lesser)) (cn_path greater))"

text \<open>
  lodash \<open>uniqWith(array, comparator)\<close> (\<open>baseUniq\<close>): the elements are taken in order, and one
  is kept unless \<open>comparator(value, seen)\<close> holds for an element kept before it.
\<close>

fun baseUniq :: "('a \<Rightarrow> 'a \<Rightarrow> bool) \<Rightarrow> 'a list \<Rightarrow> 'a list \<Rightarrow> 'a list" where
  "baseUniq cmp result [] = result"
| "baseUniq cmp result (v # vs) =
     baseUniq cmp (if list_ex (\<lambda>seen. cmp v seen) result then result else result @ [v]) vs"

definition uniqWith :: "'a list \<Rightarrow> ('a \<Rightarrow> 'a \<Rightarrow> bool) \<Rightarrow> 'a list" where
  "uniqWith xs cmp = baseUniq cmp [] xs"

text \<open>\<open>const [start, end] = range\<close>: the value must be iterable.\<close>

definition nth_or_undefined :: "jsval list \<Rightarrow> nat \<Rightarrow> jsval" where
  "nth_or_undefined xs i = (if i < length xs then xs ! i else JUndefined)"

definition destructure2 :: "jsval \<Rightarrow> error + (jsval \<times> jsval)" where
  "destructure2 v =
     (case v of
        JArr xs \<Rightarrow> Inr (nth_or_undefined xs 0, nth_or_undefined xs 1)
      | JStr cs \<Rightarrow> Inr (nth_or_undefined (map (\<lambda>c. JStr [c]) cs) 0,
                         nth_or_undefined (map (\<lambda>c. JStr [c]) cs) 1)
      | _ \<Rightarrow> Inl TypeError)"

text \<open>Lines 101-175: what the diff makes of the MagicString.\<close>

definition apply_diff ::
  "'p externals \<Rightarrow> magic \<Rightarrow> jsval \<Rightarrow> jsval \<Rightarrow> change list option \<Rightarrow> error + magic" where
  "apply_diff E ms originalTemplate templateAst d =
     (case d of
        None \<Rightarrow> Inr ms
      | Some changes \<Rightarrow>
          bind (changedNodes originalTemplate templateAst False changes) (\<lambda>(rootNodeChanged, nodes).
            if rootNodeChanged
            then bind (destructure2 (js_prop originalTemplate (Key ''range''))) (\<lambda>(st, en).
                   Inr (ms_update ms st en (stringify E templateAst)))
            else Inr (foldl (\<lambda>m c. ms_update m (cn_start c) (cn_end c) (stringify E (cn_node c)))
                        ms (uniqWith nodes comparator))))"

section \<open>The transform\<close>

text \<open>\<open>sfcAST.templateBody?.parent\<close> (line 56) for a component that is there.\<close>

definition templateAst_of :: "esprogram \<Rightarrow> jsval" where
  "templateAst_of sfcAST = (case templateBody sfcAST of None \<Rightarrow> JUndefined | Some doc \<Rightarrow> doc)"

text \<open>The array \<open>scriptASTs\<close> and its programs as objects, at the start of a pass.\<close>

definition array_of :: "'p list option \<Rightarrow> ref list option" where
  "array_of scriptASTs = (case scriptASTs of None \<Rightarrow> None | Some ps \<Rightarrow> Some (refs_of ps))"

definition programs_of :: "'p list option \<Rightarrow> 'p store" where
  "programs_of scriptASTs = (case scriptASTs of None \<Rightarrow> alloc [] | Some ps \<Rightarrow> alloc ps)"

text \<open>
  \<open>transformVueFile\<close> from line 56 on, for the values of its variables \<open>scriptASTs\<close> (an
  array of programs, or \<open>undefined\<close>) and \<open>sfcAST\<close> (a parsed component): the snapshot,
  the plugin loop, the re-rendering of the script hosts, the diff and the patch. The
  snapshot is \<open>cloneDeep(templateAst)\<close>; a tree of values is its own deep copy, and what
  the plugins do to the tree is the tree the loop returns.
\<close>

definition vue_pass ::
  "'p externals \<Rightarrow> string \<Rightarrow> string \<Rightarrow> ('p, 'o) codemod list \<Rightarrow> 'o \<Rightarrow> 'p list option \<Rightarrow> esprogram
     \<Rightarrow> error + TransformResult" where
  "vue_pass E text fname codemods os scriptASTs sfcAST =
     (let ms = ms_new text;
          templateAst = templateAst_of sfcAST;
          originalTemplate = templateAst
      in bind (run_codemods codemods fname os (array_of scriptASTs) (programs_of scriptASTs)
                 templateAst [])
           (\<lambda>(sts, scripts, programs, tmpl).
             bind (if js_truthy tmpl \<and> js_truthy originalTemplate
                   then bind (rerender_scripts E scripts programs tmpl) (\<lambda>tmpl'.
                          apply_diff E ms originalTemplate tmpl' (diff originalTemplate tmpl' prefilter))
                   else Inr ms) (\<lambda>ms'.
             bind (ms_toString E ms') (\<lambda>out.
               Inr \<lparr>code = out, stats = sts\<rparr>))))"

text \<open>
  \<open>transformVueFile\<close>. Line 55 reads the properties \<open>scriptASTs\<close> and \<open>sfcAST\<close> of what
  \<open>parseVue\<close> returns, and line 56 reads \<open>sfcAST.templateBody\<close>, which throws when \<open>sfcAST\<close>
  is \<open>undefined\<close>.
\<close>

definition transformVueFile ::
  "'p externals \<Rightarrow> string \<Rightarrow> string \<Rightarrow> ('p, 'o) codemod list \<Rightarrow> 'o \<Rightarrow> error + TransformResult" where
  "transformVueFile E text fname codemods os =
     bind (parseVue E text) (\<lambda>parsed.
       let scriptASTs = prop_scripts parsed ''scriptASTs'';
           sfcAST = prop_program parsed ''sfcAST''
       in case sfcAST of
            None \<Rightarrow> Inl TypeError
          | Some component \<Rightarrow> vue_pass E text fname codemods os scriptASTs component)"

text \<open>
  The plugin loop of \<open>transformTypescriptFile\<close> (lines 194-203): every plugin gets a fresh
  one-element array \<open>[ast]\<close> and \<open>null\<close> for the tree. What a plugin does to that array or
  returns for the tree is lost; what it does to the program objects stays.
\<close>

definition ast_ref :: ref where
  "ast_ref = 0"

fun run_codemods_ts ::
  "('p, 'o) codemod list \<Rightarrow> string \<Rightarrow> 'o \<Rightarrow> 'p store \<Rightarrow> (string \<times> int) list
     \<Rightarrow> error + ((string \<times> int) list \<times> 'p store)" where
  "run_codemods_ts [] fname os programs acc = Inr (acc, programs)"
| "run_codemods_ts (c # cs) fname os programs acc =
     (case codemod_transform c
             \<lparr>ctx_scriptASTs = Some [ast_ref], ctx_programs = programs, ctx_sfcAST = JNull,
              ctx_filename = fname, ctx_opts = os\<rparr> of
        Inl e \<Rightarrow> Inl e
      | Inr (count, programs', scripts', tmpl') \<Rightarrow>
          run_codemods_ts cs fname os programs' (acc @ [(name c, count)]))"

text \<open>
  \<open>transformTypescriptFile\<close>: the parsed program is the object \<open>ast\<close>; after the loop the
  printer is given that same object (line 206).
\<close>

definition transformTypescriptFile ::
  "'p externals \<Rightarrow> string \<Rightarrow> string \<Rightarrow> ('p, 'o) codemod list \<Rightarrow> 'o \<Rightarrow> error + TransformResult" where
  "transformTypescriptFile E text fname codemods os =
     bind (parseTs E text) (\<lambda>ast.
     bind (run_codemods_ts codemods fname os (alloc [ast]) []) (\<lambda>(sts, programs).
       Inr \<lparr>code = recastPrint E (programs ast_ref) @ [nl], stats = sts\<rparr>))"

definition transform ::
  "'p externals \<Rightarrow> string \<Rightarrow> string \<Rightarrow> ('p, 'o) codemod list \<Rightarrow> 'o \<Rightarrow> error + TransformResult" where
  "transform E text fname plugins os =
     (if str_endsWith fname ''.vue''
      then transformVueFile E text fname plugins os
      else transformTypescriptFile E text fname plugins os)"

section \<open>Notions used in the statements\<close>

text \<open>A tree with the bookkeeping fields of \<open>ignoreProperties\<close> removed from every object.\<close>

fun strip :: "jsval \<Rightarrow> jsval"
  and strip_elems :: "jsval list \<Rightarrow> jsval list"
  and strip_props :: "(string \<times> jsval) list \<Rightarrow> (string \<times> jsval) list"
where
  "strip (JArr xs) = JArr (strip_elems xs)"
| "strip (JObj kvs) = JObj (strip_props kvs)"
| "strip v = v"
| "strip_elems [] = []"
| "strip_elems (x # xs) = strip x # strip_elems xs"
| "strip_props [] = []"
| "strip_props ((k, v) # kvs) =
     (if k \<in> set ignoreProperties then strip_props kvs else (k, strip v) # strip_props kvs)"

text \<open>Every object of the tree has each key once, as a JavaScript object does.\<close>

fun wf_js :: "jsval \<Rightarrow> bool"
  and wf_elems :: "jsval list \<Rightarrow> bool"
  and wf_props :: "(string \<times> jsval) list \<Rightarrow> bool"
where
  "wf_js (JArr xs) = wf_elems xs"
| "wf_js (JObj kvs) = (distinct (map fst kvs) \<and> wf_props kvs)"
| "wf_js v = True"
| "wf_elems [] = True"
| "wf_elems (x # xs) = (wf_js x \<and> wf_elems xs)"
| "wf_props [] = True"
| "wf_props ((k, v) # kvs) = (wf_js v \<and> wf_props kvs)"

text \<open>No element of the list is related to one before it.\<close>

definition unrelated :: "('a \<Rightarrow> 'a \<Rightarrow> bool) \<Rightarrow> 'a list \<Rightarrow> bool" where
  "unrelated cmp r = (\<forall>i<length r. \<forall>j<i. \<not> cmp (r ! i) (r ! j))"

text \<open>The value the counter \<open>i\<close> has when the traversal enters the j-th child of the root.\<close>

definition host_index :: "jsval list \<Rightarrow> nat \<Rightarrow> nat" where
  "host_index nodes j = length (filter (\<lambda>n. is_script_host n = Inr True) (take j nodes))"

text \<open>The elements of the array a plugin was handed (none when it was handed \<open>undefined\<close>).\<close>

definition handed_array :: "('p, 'o) plugin_context \<Rightarrow> ref list" where
  "handed_array ctx = (case ctx_scriptASTs ctx of None \<Rightarrow> [] | Some refs \<Rightarrow> refs)"


text \<open>
  An entry that stands for something new or something deleted: a property (kind \<open>N\<close> or
  \<open>D\<close>), or an array element (kind \<open>A\<close> with an item of kind \<open>N\<close> or \<open>D\<close>).
\<close>

definition new_or_delete :: "change \<Rightarrow> bool" where
  "new_or_delete p =
     (kind p = KindN \<or> kind p = KindD \<or>
      (kind p = KindA \<and> (item p = Some KindN \<or> item p = Some KindD)))"

text \<open>The shape of the entries the diff produces: an item, of kind \<open>N\<close> or \<open>D\<close>, in the
  entries of kind \<open>A\<close> and in no other.\<close>

definition entry_shape :: "change \<Rightarrow> bool" where
  "entry_shape p =
     (if kind p = KindA then item p = Some KindN \<or> item p = Some KindD else item p = None)"

section \<open>Example data\<close>

definition example_text_node :: "string \<Rightarrow> jsval" where
  "example_text_node v =
     JObj [(''type'', JStr ''VText''), (''range'', JArr [JNum 5, JNum 6]), (''value'', JStr v)]"

definition example_element :: "string \<Rightarrow> jsval \<Rightarrow> jsval" where
  "example_element v endTag =
     JObj [(''type'', JStr ''VElement''), (''name'', JStr ''div''),
           (''range'', JArr [JNum 0, JNum 12]),
           (''children'', JArr [example_text_node v]),
           (''endTag'', endTag)]"

definition example_endTag :: jsval where
  "example_endTag = JObj [(''type'', JStr ''VEndTag''), (''range'', JArr [JNum 6, JNum 12])]"

text \<open>The document \<open><div>a</div>\<close> as parsed, and after a plugin has changed the text to
  \<open>b\<close> and set the element's \<open>endTag\<close> to \<open>null\<close>.\<close>

definition example_doc :: jsval where
  "example_doc =
     JObj [(''type'', JStr ''VDocumentFragment''), (''range'', JArr [JNum 0, JNum 12]),
           (''children'', JArr [example_element ''a'' example_endTag])]"

definition example_doc_mutated :: jsval where
  "example_doc_mutated =
     JObj [(''type'', JStr ''VDocumentFragment''), (''range'', JArr [JNum 0, JNum 12]),
           (''children'', JArr [example_element ''b'' JNull])]"

text \<open>The same document with a second top-level element appended.\<close>

definition example_doc_appended :: jsval where
  "example_doc_appended =
     JObj [(''type'', JStr ''VDocumentFragment''), (''range'', JArr [JNum 0, JNum 12]),
           (''children'', JArr [example_element ''a'' example_endTag,
                                 example_element ''c'' example_endTag])]"

text \<open>The same document with refreshed ranges and parent links only.\<close>

definition example_doc_refreshed :: jsval where
  "example_doc_refreshed =
     JObj [(''type'', JStr ''VDocumentFragment''), (''range'', JArr [JNum 0, JNum 13]),
           (''children'', JArr [
              JObj [(''type'', JStr ''VElement''), (''name'', JStr ''div''),
                    (''range'', JArr [JNum 1, JNum 13]),
                    (''children'', JArr [
                       JObj [(''type'', JStr ''VText''), (''value'', JStr ''a''),
                             (''parent'', JStr ''div'')]]),
                    (''endTag'', JObj [(''type'', JStr ''VEndTag'')]),
                    (''parent'', JNull)]])]"

text \<open>A script host with the given text, and a document whose one top-level element it is.\<close>

definition example_script_host :: "string \<Rightarrow> jsval" where
  "example_script_host v =
     JObj [(''type'', JStr ''VElement''), (''name'', JStr ''script''),
           (''range'', JArr [JNum 0, JNum 28]),
           (''children'', JArr [
              JObj [(''type'', JStr ''VText''), (''range'', JArr [JNum 8, JNum 19]),
                    (''value'', JStr v)]])]"

definition example_script_doc :: "string \<Rightarrow> jsval" where
  "example_script_doc v =
     JObj [(''type'', JStr ''VDocumentFragment''), (''range'', JArr [JNum 0, JNum 28]),
           (''children'', JArr [example_script_host v])]"

text \<open>The one-line component \<open><script>const s = 1</script>\<close>: its text, and its script.\<close>

definition example_script_text :: string where
  "example_script_text = ''<script>const s = 1</script>''"

definition example_script_source :: string where
  "example_script_source = ''const s = 1''"

text \<open>
  Collaborators for the examples: a program is its source text and prints as that text
  (recast reprints an untouched program from its source); the component parser finds a
  template body exactly in a text that contains \<open><template\<close>.
\<close>

definition example_externals :: "string externals" where
  "example_externals =
     \<lparr>vueParse = (\<lambda>t. Inr \<lparr>templateBody = (if str_includes t ''<template'' then Some example_doc else None)\<rparr>),
      findAllScripts = (\<lambda>d. []),
      recastParse = Inr,
      recastPrint = (\<lambda>p. case p of None \<Rightarrow> [] | Some src \<Rightarrow> src),
      stringify = (\<lambda>v. case js_prop v (Key ''value'') of JStr txt \<Rightarrow> txt | _ \<Rightarrow> ''<node/>''),
      splice = (\<lambda>s us. Inl (PatchError ''not used''))\<rparr>"

text \<open>A MagicString with one update of a non-empty span inside the text.\<close>

definition single_splice :: "string \<Rightarrow> (jsval \<times> jsval \<times> string) list \<Rightarrow> error + string" where
  "single_splice s us =
     (case us of
        [(JNum a, JNum b, c)] \<Rightarrow>
          if 0 \<le> a \<and> a < b \<and> b \<le> int (length s)
          then Inr (take (nat a) s @ c @ drop (nat b) s)
          else Inl (PatchError ''range'')
      | _ \<Rightarrow> Inl (PatchError ''not one update''))"

definition splicing_externals :: "string externals" where
  "splicing_externals = example_externals\<lparr>splice := single_splice\<rparr>"

text \<open>
  A component parser that finds a template body only where the text, blank lines aside,
  opens with the template element: in \<open><div>\<close> followed by the appended template the
  element is not at the top level of the document.
\<close>

definition top_level_externals :: "string externals" where
  "top_level_externals =
     example_externals
       \<lparr>vueParse := (\<lambda>t. Inr \<lparr>templateBody =
            (if str_startsWith (dropWhile (\<lambda>c. c = nl) t) ''<template'' then Some example_doc else None)\<rparr>)\<rparr>"

text \<open>A plugin that mutates nothing and reports a count.\<close>

definition counting_plugin :: "string \<Rightarrow> int \<Rightarrow> (string, unit) codemod" where
  "counting_plugin nm n =
     \<lparr>name = nm,
      codemod_transform = (\<lambda>ctx. Inr (n, ctx_programs ctx, handed_array ctx, ctx_sfcAST ctx))\<rparr>"

text \<open>A plugin that changes every program it is handed in place, appending to its text.\<close>

definition appending_plugin :: "string \<Rightarrow> string \<Rightarrow> (string, unit) codemod" where
  "appending_plugin nm suffix =
     \<lparr>name = nm,
      codemod_transform = (\<lambda>ctx.
        Inr (int (length (handed_array ctx)),
             (\<lambda>r. if r \<in> set (handed_array ctx)
                   then map_option (\<lambda>src. src @ suffix) (ctx_programs ctx r)
                   else ctx_programs ctx r),
             handed_array ctx, ctx_sfcAST ctx))\<rparr>"

text \<open>A plugin that puts a new program into the first slot of the array it is handed and
  leaves the programs themselves alone.\<close>

definition replacing_plugin :: "string \<Rightarrow> string \<Rightarrow> (string, unit) codemod" where
  "replacing_plugin nm src =
     \<lparr>name = nm,
      codemod_transform = (\<lambda>ctx.
        Inr (1, (ctx_programs ctx)(100 := Some src), (handed_array ctx)[0 := 100], ctx_sfcAST ctx))\<rparr>"

text \<open>A plugin that leaves the document with refreshed ranges and parent links.\<close>

definition refreshing_plugin :: "(string, unit) codemod" where
  "refreshing_plugin =
     \<lparr>name = ''refresh'',
      codemod_transform = (\<lambda>ctx. Inr (0, ctx_programs ctx, handed_array ctx, example_doc_refreshed))\<rparr>"

definition failing_plugin :: "(string, unit) codemod" where
  "failing_plugin = \<lparr>name = ''boom'', codemod_transform = (\<lambda>ctx. Inl (PluginError ''boom''))\<rparr>"

section \<open>Basic facts\<close>

lemma bind_Inr_iff: "bind m f = Inr y \<longleftrightarrow> (\<exists>x. m = Inr x \<and> f x = Inr y)"
  by (cases m) (simp_all add: bind_def)

lemma bind_Inr [simp]: "bind (Inr x) f = f x"
  by (simp add: bind_def)

lemma bind_Inl [simp]: "bind (Inl e) f = Inl e"
  by (simp add: bind_def)

lemma at_neg_take:
  assumes "m \<le> length q" and "0 < k"
  shows "at_neg (take m q) k = (if k \<le> m then Some (q ! (m - k)) else None)"
  using assms by (simp add: at_neg_def min_def)

lemma pop_take: "pop xs = take (length xs - 1) xs"
  by (simp add: pop_def butlast_conv_take)

text \<open>
  Claim C6. The owning node path of a change entry is the entry's path without its last
  segment, without one more segment when the path then ends in \<open>startTag\<close>, and without
  one more when the second-to-last segment of what is left is \<open>key\<close>; nothing else is
  removed. In terms of the entry's own path \<open>q\<close> of length \<open>n\<close>: the result is a prefix of
  \<open>q\<close>, shorter by one, plus one if \<open>q\<close> has \<open>startTag\<close> as its second-to-last segment
  (\<open>a\<close>), plus one if the segment three (four when \<open>a = 1\<close>) from the end is \<open>key\<close> (\<open>b\<close>).
\<close>

theorem owning_path_characterisation:
  "owning_path p =
     (let q = (case p of None \<Rightarrow> [] | Some q \<Rightarrow> q);
          n = length q;
          a = (if 2 \<le> n \<and> q ! (n - 2) = Key ''startTag'' then 1 else 0);
          b = (if 3 + a \<le> n \<and> q ! (n - 3 - a) = Key ''key'' then 1 else 0)
      in take (n - 1 - a - b) q)"
proof -
  define q where "q = (case p of None \<Rightarrow> [] | Some q \<Rightarrow> q)"
  define n where "n = length q"
  define a :: nat where "a = (if 2 \<le> n \<and> q ! (n - 2) = Key ''startTag'' then 1 else 0)"
  define b :: nat where "b = (if 3 + a \<le> n \<and> q ! (n - 3 - a) = Key ''key'' then 1 else 0)"
  define path1 where "path1 = pop q"
  define path2 where "path2 = (if at_neg path1 1 = Some (Key ''startTag'') then pop path1 else path1)"
  define path3 where "path3 = (if at_neg path2 2 = Some (Key ''key'') then pop path2 else path2)"
  have p1: "path1 = take (n - 1) q"
    by (simp add: path1_def pop_take n_def)
  have c1: "at_neg path1 1 = Some (Key ''startTag'') \<longleftrightarrow> 2 \<le> n \<and> q ! (n - 2) = Key ''startTag''"
  proof -
    have "at_neg (take (n - 1) q) 1 = (if 1 \<le> n - 1 then Some (q ! (n - 1 - 1)) else None)"
      by (rule at_neg_take) (simp_all add: n_def)
    moreover have "n - 1 - 1 = n - 2" by simp
    moreover have "1 \<le> n - 1 \<longleftrightarrow> 2 \<le> n" by arith
    ultimately show ?thesis by (simp add: p1)
  qed
  have p2: "path2 = take (n - 1 - a) q"
  proof (cases "2 \<le> n \<and> q ! (n - 2) = Key ''startTag''")
    case True
    then have "path2 = pop path1" using c1 by (simp add: path2_def)
    moreover have "length path1 = n - 1" by (simp add: p1 n_def)
    ultimately have "path2 = take (n - 1 - 1) (take (n - 1) q)"
      by (simp add: pop_take p1)
    then show ?thesis using True by (simp add: a_def min_def)
  next
    case False
    with c1 have "at_neg path1 1 \<noteq> Some (Key ''startTag'')" by blast
    then have "path2 = path1" by (simp add: path2_def)
    moreover have "a = 0" using False by (auto simp: a_def)
    ultimately have "path2 = path1" and "a = 0" by blast+
    then show ?thesis by (simp add: p1)
  qed
  have c2: "at_neg path2 2 = Some (Key ''key'') \<longleftrightarrow> 3 + a \<le> n \<and> q ! (n - 3 - a) = Key ''key''"
  proof -
    have "at_neg (take (n - 1 - a) q) 2 = (if 2 \<le> n - 1 - a then Some (q ! (n - 1 - a - 2)) else None)"
      by (rule at_neg_take) (simp_all add: n_def)
    moreover have "n - 1 - a - 2 = n - 3 - a" by arith
    moreover have "2 \<le> n - 1 - a \<longleftrightarrow> 3 + a \<le> n" by arith
    ultimately show ?thesis by (simp add: p2)
  qed
  have p3: "path3 = take (n - 1 - a - b) q"
  proof (cases "3 + a \<le> n \<and> q ! (n - 3 - a) = Key ''key''")
    case True
    then have "path3 = pop path2" using c2 by (simp add: path3_def)
    moreover have "length path2 = n - 1 - a" by (simp add: p2 n_def)
    ultimately have "path3 = take (n - 1 - a - 1) (take (n - 1 - a) q)"
      by (simp add: pop_take p2)
    then show ?thesis using True by (simp add: b_def min_def)
  next
    case False
    with c2 have "at_neg path2 2 \<noteq> Some (Key ''key'')" by blast
    then have "path3 = path2" by (simp add: path3_def)
    moreover have "b = 0" using False by (auto simp: b_def)
    ultimately have "path3 = path2" and "b = 0" by blast+
    then show ?thesis by (simp add: p2)
  qed
  have "owning_path p = path3"
    by (simp add: owning_path_def Let_def path3_def path2_def path1_def q_def)
  with p3 have "owning_path p = take (n - 1 - a - b) q"
    by simp
  then show ?thesis
    unfolding Let_def b_def a_def n_def q_def .
qed

section \<open>The plugin loops, the stats and the printed program\<close>

lemma run_codemods_append:
  "run_codemods (xs @ ys) f os s p t acc =
     (case run_codemods xs f os s p t acc of
        Inl e \<Rightarrow> Inl e
      | Inr (acc', s', p', t') \<Rightarrow> run_codemods ys f os s' p' t' acc')"
  by (induction xs arbitrary: s p t acc) (auto split: sum.splits prod.splits)

lemma run_codemods_names:
  "run_codemods cs f os s p t acc = Inr (sts, s', p', t') \<Longrightarrow> map fst sts = map fst acc @ map name cs"
  by (induction cs arbitrary: s p t acc) (auto split: sum.splits prod.splits)

lemma run_codemods_prefix:
  "run_codemods cs f os s p t acc = Inr (sts, s', p', t') \<Longrightarrow> take (length acc) sts = acc"
proof (induction cs arbitrary: s p t acc)
  case Nil
  then show ?case by simp
next
  case (Cons c cs)
  then obtain n s1 p1 t1 where
    rest: "run_codemods cs f os s1 p1 t1 (acc @ [(name c, n)]) = Inr (sts, s', p', t')"
    by (auto split: sum.splits prod.splits)
  from Cons.IH[OF rest] have "take (Suc (length acc)) sts = acc @ [(name c, n)]"
    by simp
  then have "take (length acc) (take (Suc (length acc)) sts) = take (length acc) (acc @ [(name c, n)])"
    by simp
  then show ?case by (simp add: min_def)
qed

lemma run_codemods_nth:
  assumes run: "run_codemods cs f os s p t [] = Inr (sts, s', p', t')" and i: "i < length cs"
  shows "\<exists>acc si pi ti res.
           run_codemods (take i cs) f os s p t [] = Inr (acc, si, pi, ti) \<and>
           codemod_transform (cs ! i)
             \<lparr>ctx_scriptASTs = si, ctx_programs = pi,
              ctx_sfcAST = (if nullish ti then JNull else ti),
              ctx_filename = f, ctx_opts = os\<rparr> = Inr (snd (sts ! i), res) \<and>
           fst (sts ! i) = name (cs ! i)"
proof -
  have split: "cs = take i cs @ (cs ! i # drop (Suc i) cs)"
    using i by (simp add: id_take_nth_drop)
  have "run_codemods (take i cs @ (cs ! i # drop (Suc i) cs)) f os s p t [] = Inr (sts, s', p', t')"
    using run split by simp
  then obtain acc si pi ti where
    pre: "run_codemods (take i cs) f os s p t [] = Inr (acc, si, pi, ti)" and
    post: "run_codemods (cs ! i # drop (Suc i) cs) f os si pi ti acc = Inr (sts, s', p', t')"
    by (auto simp: run_codemods_append split: sum.splits prod.splits)
  from post obtain n p1 s1 t1 sx tx where
    call: "codemod_transform (cs ! i)
             \<lparr>ctx_scriptASTs = si, ctx_programs = pi,
              ctx_sfcAST = (if nullish ti then JNull else ti),
              ctx_filename = f, ctx_opts = os\<rparr> = Inr (n, p1, s1, t1)" and
    rest: "run_codemods (drop (Suc i) cs) f os sx p1 tx (acc @ [(name (cs ! i), n)]) = Inr (sts, s', p', t')"
    by (auto split: sum.splits prod.splits)
  have "map fst acc = map name (take i cs)"
    using run_codemods_names[OF pre] by simp
  then have "length (map fst acc) = length (map name (take i cs))" by simp
  then have len: "length acc = i" using i by simp
  have "take (Suc i) sts = acc @ [(name (cs ! i), n)]"
    using run_codemods_prefix[OF rest] len by simp
  then have "take (Suc i) sts ! i = (acc @ [(name (cs ! i), n)]) ! i" by simp
  then have "sts ! i = (name (cs ! i), n)"
    using len by (simp add: nth_append)
  with pre call show ?thesis by auto
qed

lemma run_codemods_ts_append:
  "run_codemods_ts (xs @ ys) f os p acc =
     (case run_codemods_ts xs f os p acc of
        Inl e \<Rightarrow> Inl e
      | Inr (acc', p') \<Rightarrow> run_codemods_ts ys f os p' acc')"
  by (induction xs arbitrary: p acc) (auto split: sum.splits prod.splits)

lemma run_codemods_ts_names:
  "run_codemods_ts cs f os p acc = Inr (sts, p') \<Longrightarrow> map fst sts = map fst acc @ map name cs"
  by (induction cs arbitrary: p acc) (auto split: sum.splits prod.splits)

lemma run_codemods_ts_prefix:
  "run_codemods_ts cs f os p acc = Inr (sts, p') \<Longrightarrow> take (length acc) sts = acc"
proof (induction cs arbitrary: p acc)
  case Nil
  then show ?case by simp
next
  case (Cons c cs)
  then obtain n p1 where
    rest: "run_codemods_ts cs f os p1 (acc @ [(name c, n)]) = Inr (sts, p')"
    by (auto split: sum.splits prod.splits)
  from Cons.IH[OF rest] have "take (Suc (length acc)) sts = acc @ [(name c, n)]"
    by simp
  then have "take (length acc) (take (Suc (length acc)) sts) = take (length acc) (acc @ [(name c, n)])"
    by simp
  then show ?case by (simp add: min_def)
qed

lemma run_codemods_ts_nth:
  assumes run: "run_codemods_ts cs f os p [] = Inr (sts, p')" and i: "i < length cs"
  shows "\<exists>acc pi res.
           run_codemods_ts (take i cs) f os p [] = Inr (acc, pi) \<and>
           codemod_transform (cs ! i)
             \<lparr>ctx_scriptASTs = Some [ast_ref], ctx_programs = pi, ctx_sfcAST = JNull,
              ctx_filename = f, ctx_opts = os\<rparr> = Inr (snd (sts ! i), res) \<and>
           fst (sts ! i) = name (cs ! i)"
proof -
  have split: "cs = take i cs @ (cs ! i # drop (Suc i) cs)"
    using i by (simp add: id_take_nth_drop)
  have "run_codemods_ts (take i cs @ (cs ! i # drop (Suc i) cs)) f os p [] = Inr (sts, p')"
    using run split by simp
  then obtain acc pi where
    pre: "run_codemods_ts (take i cs) f os p [] = Inr (acc, pi)" and
    post: "run_codemods_ts (cs ! i # drop (Suc i) cs) f os pi acc = Inr (sts, p')"
    by (auto simp: run_codemods_ts_append split: sum.splits prod.splits)
  from post obtain n p1 s1 t1 where
    call: "codemod_transform (cs ! i)
             \<lparr>ctx_scriptASTs = Some [ast_ref], ctx_programs = pi, ctx_sfcAST = JNull,
              ctx_filename = f, ctx_opts = os\<rparr> = Inr (n, p1, s1, t1)" and
    rest: "run_codemods_ts (drop (Suc i) cs) f os p1 (acc @ [(name (cs ! i), n)]) = Inr (sts, p')"
    by (auto split: sum.splits prod.splits)
  have "map fst acc = map name (take i cs)"
    using run_codemods_ts_names[OF pre] by simp
  then have "length (map fst acc) = length (map name (take i cs))" by simp
  then have len: "length acc = i" using i by simp
  have "take (Suc i) sts = acc @ [(name (cs ! i), n)]"
    using run_codemods_ts_prefix[OF rest] len by simp
  then have "take (Suc i) sts ! i = (acc @ [(name (cs ! i), n)]) ! i" by simp
  then have "sts ! i = (name (cs ! i), n)"
    using len by (simp add: nth_append)
  with pre call show ?thesis by auto
qed

lemma transformVueFile_throws:
  "transformVueFile E text fname codemods os = Inl TypeError \<or>
   (\<exists>e. parseVue E text = Inl e \<and> transformVueFile E text fname codemods os = Inl e)"
  by (cases "parseVue E text") (simp_all add: transformVueFile_def prop_program_def)

lemma transformVueFile_no_result: "transformVueFile E text fname codemods os \<noteq> Inr r"
  using transformVueFile_throws[of E "text" fname codemods os] by auto

lemma vue_pass_InrD:
  assumes "vue_pass E text fname plugins os scriptASTs sfcAST = Inr r"
  shows "\<exists>scripts programs tmpl.
           run_codemods plugins fname os (array_of scriptASTs) (programs_of scriptASTs)
             (templateAst_of sfcAST) [] = Inr (stats r, scripts, programs, tmpl)"
  using assms unfolding vue_pass_def Let_def
  by (auto simp: bind_Inr_iff)

lemma transformTypescriptFile_InrD:
  assumes "transformTypescriptFile E text fname plugins os = Inr r"
  shows "\<exists>ast programs.
           parseTs E text = Inr ast \<and>
           run_codemods_ts plugins fname os (alloc [ast]) [] = Inr (stats r, programs) \<and>
           code r = recastPrint E (programs ast_ref) @ [nl]"
  using assms unfolding transformTypescriptFile_def
  by (auto simp: bind_Inr_iff)

lemma transform_InrD:
  assumes "transform E text fname plugins os = Inr r"
  shows "\<not> str_endsWith fname ''.vue'' \<and> transformTypescriptFile E text fname plugins os = Inr r"
  using assms transformVueFile_no_result[of E "text" fname plugins os r]
  by (auto simp: transform_def split: if_splits)


text \<open>
  Claim C7. When \<open>transform\<close> returns, its stats hold one pair per plugin, in the order
  of the plugin list: the names are the plugins' names, and the count at position \<open>i\<close> is
  the count that plugin \<open>i\<close> returned when it was called on the program as the plugins
  before it left it (with this file name and these options; each call is handed a fresh
  one-element array holding the program). The loop of \<open>transformVueFile\<close> builds its stats
  the same way: whenever the pass after the destructuring (\<open>vue_pass\<close>) returns, its
  stats hold one pair per plugin, with the count plugin \<open>i\<close> returned on the script array,
  the programs and the template as the plugins before it left them.
\<close>

theorem stats_one_pair_per_plugin:
  "(transform E text fname plugins os = Inr r \<longrightarrow>
      map fst (stats r) = map name plugins \<and>
      (\<forall>i<length plugins.
         \<exists>ast acc programs res.
           parseTs E text = Inr ast \<and>
           run_codemods_ts (take i plugins) fname os (alloc [ast]) [] = Inr (acc, programs) \<and>
           codemod_transform (plugins ! i)
             \<lparr>ctx_scriptASTs = Some [ast_ref], ctx_programs = programs, ctx_sfcAST = JNull,
              ctx_filename = fname, ctx_opts = os\<rparr> = Inr (snd (stats r ! i), res)))
   \<and> (vue_pass E text fname plugins os scriptASTs sfcAST = Inr r' \<longrightarrow>
      map fst (stats r') = map name plugins \<and>
      (\<forall>i<length plugins.
         \<exists>acc scripts programs tmpl res.
           run_codemods (take i plugins) fname os (array_of scriptASTs) (programs_of scriptASTs)
             (templateAst_of sfcAST) [] = Inr (acc, scripts, programs, tmpl) \<and>
           codemod_transform (plugins ! i)
             \<lparr>ctx_scriptASTs = scripts, ctx_programs = programs,
              ctx_sfcAST = (if nullish tmpl then JNull else tmpl),
              ctx_filename = fname, ctx_opts = os\<rparr> = Inr (snd (stats r' ! i), res)))"
proof (intro conjI impI)
  assume "transform E text fname plugins os = Inr r"
  from transform_InrD[OF this]
  have "transformTypescriptFile E text fname plugins os = Inr r" by simp
  from transformTypescriptFile_InrD[OF this] obtain ast programs where
    p: "parseTs E text = Inr ast" and
    run: "run_codemods_ts plugins fname os (alloc [ast]) [] = Inr (stats r, programs)"
    by blast
  show "map fst (stats r) = map name plugins"
    using run_codemods_ts_names[OF run] by simp
  show "\<forall>i<length plugins.
         \<exists>ast acc programs res.
           parseTs E text = Inr ast \<and>
           run_codemods_ts (take i plugins) fname os (alloc [ast]) [] = Inr (acc, programs) \<and>
           codemod_transform (plugins ! i)
             \<lparr>ctx_scriptASTs = Some [ast_ref], ctx_programs = programs, ctx_sfcAST = JNull,
              ctx_filename = fname, ctx_opts = os\<rparr> = Inr (snd (stats r ! i), res)"
  proof (intro allI impI)
    fix i assume "i < length plugins"
    from run_codemods_ts_nth[OF run this] p show
      "\<exists>ast acc programs res.
           parseTs E text = Inr ast \<and>
           run_codemods_ts (take i plugins) fname os (alloc [ast]) [] = Inr (acc, programs) \<and>
           codemod_transform (plugins ! i)
             \<lparr>ctx_scriptASTs = Some [ast_ref], ctx_programs = programs, ctx_sfcAST = JNull,
              ctx_filename = fname, ctx_opts = os\<rparr> = Inr (snd (stats r ! i), res)"
      by blast
  qed
next
  assume "vue_pass E text fname plugins os scriptASTs sfcAST = Inr r'"
  from vue_pass_InrD[OF this] obtain scripts programs tmpl where
    run: "run_codemods plugins fname os (array_of scriptASTs) (programs_of scriptASTs)
            (templateAst_of sfcAST) [] = Inr (stats r', scripts, programs, tmpl)"
    by blast
  show "map fst (stats r') = map name plugins"
    using run_codemods_names[OF run] by simp
  show "\<forall>i<length plugins.
         \<exists>acc scripts programs tmpl res.
           run_codemods (take i plugins) fname os (array_of scriptASTs) (programs_of scriptASTs)
             (templateAst_of sfcAST) [] = Inr (acc, scripts, programs, tmpl) \<and>
           codemod_transform (plugins ! i)
             \<lparr>ctx_scriptASTs = scripts, ctx_programs = programs,
              ctx_sfcAST = (if nullish tmpl then JNull else tmpl),
              ctx_filename = fname, ctx_opts = os\<rparr> = Inr (snd (stats r' ! i), res)"
  proof (intro allI impI)
    fix i assume "i < length plugins"
    from run_codemods_nth[OF run this] show
      "\<exists>acc scripts programs tmpl res.
           run_codemods (take i plugins) fname os (array_of scriptASTs) (programs_of scriptASTs)
             (templateAst_of sfcAST) [] = Inr (acc, scripts, programs, tmpl) \<and>
           codemod_transform (plugins ! i)
             \<lparr>ctx_scriptASTs = scripts, ctx_programs = programs,
              ctx_sfcAST = (if nullish tmpl then JNull else tmpl),
              ctx_filename = fname, ctx_opts = os\<rparr> = Inr (snd (stats r' ! i), res)"
      by blast
  qed
qed

lemma example_ts_run:
  "transform example_externals ''x'' ''a.ts''
     [appending_plugin ''a'' ''!'', replacing_plugin ''b'' ''y'', counting_plugin ''c'' 2] ()
     = Inr \<lparr>code = ''x!'' @ [nl], stats = [(''a'', 1), (''b'', 1), (''c'', 2)]\<rparr>"
  by code_simp

lemma example_vue_run:
  "vue_pass example_externals ''x'' ''a.vue'' [counting_plugin ''a'' 1, counting_plugin ''b'' 0] ()
     (Some []) \<lparr>templateBody = Some example_doc\<rparr>
     = Inr \<lparr>code = ''x'', stats = [(''a'', 1), (''b'', 0)]\<rparr>"
  by code_simp

theorem stats_one_pair_per_plugin_witness:
  "transform example_externals ''x'' ''a.ts''
     [appending_plugin ''a'' ''!'', replacing_plugin ''b'' ''y'', counting_plugin ''c'' 2] ()
     = Inr \<lparr>code = ''x!'' @ [nl], stats = [(''a'', 1), (''b'', 1), (''c'', 2)]\<rparr> \<and>
   map fst [(''a'', 1::int), (''b'', 1), (''c'', 2)] = [''a'', ''b'', ''c''] \<and>
   (\<exists>acc programs res.
      run_codemods_ts
        (take 2 [appending_plugin ''a'' ''!'', replacing_plugin ''b'' ''y'', counting_plugin ''c'' 2])
        ''a.ts'' () (alloc [''x'']) [] = Inr (acc, programs) \<and>
      codemod_transform (counting_plugin ''c'' 2)
        \<lparr>ctx_scriptASTs = Some [ast_ref], ctx_programs = programs, ctx_sfcAST = JNull,
         ctx_filename = ''a.ts'', ctx_opts = ()\<rparr> = Inr (2, res)) \<and>
   vue_pass example_externals ''x'' ''a.vue'' [counting_plugin ''a'' 1, counting_plugin ''b'' 0] ()
     (Some []) \<lparr>templateBody = Some example_doc\<rparr>
     = Inr \<lparr>code = ''x'', stats = [(''a'', 1), (''b'', 0)]\<rparr> \<and>
   map fst (stats \<lparr>code = ''x'', stats = [(''a'', 1), (''b'', 0)]\<rparr>)
     = map name [counting_plugin ''a'' 1, counting_plugin ''b'' 0]"
proof -
  let ?ps = "[appending_plugin ''a'' ''!'', replacing_plugin ''b'' ''y'', counting_plugin ''c'' 2]"
  let ?r = "\<lparr>code = ''x!'' @ [nl], stats = [(''a'', 1), (''b'', 1), (''c'', 2)]\<rparr>"
  note st = stats_one_pair_per_plugin[THEN conjunct1, rule_format, OF example_ts_run]
  from st have names: "map fst (stats ?r) = map name ?ps" by (rule conjunct1)
  have i: "2 < length ?ps" by simp
  from st[THEN conjunct2, rule_format, OF i] obtain ast acc programs res where
    p: "parseTs example_externals ''x'' = Inr ast" and
    pre: "run_codemods_ts (take 2 ?ps) ''a.ts'' () (alloc [ast]) [] = Inr (acc, programs)" and
    call: "codemod_transform (?ps ! 2)
             \<lparr>ctx_scriptASTs = Some [ast_ref], ctx_programs = programs, ctx_sfcAST = JNull,
              ctx_filename = ''a.ts'', ctx_opts = ()\<rparr> = Inr (snd (stats ?r ! 2), res)"
    by blast
  from p have ast: "ast = ''x''" by (simp add: parseTs_def example_externals_def)
  have two: "snd (stats ?r ! 2) = 2" and third: "?ps ! 2 = counting_plugin ''c'' 2" by simp_all
  from pre call have "\<exists>acc programs res.
      run_codemods_ts (take 2 ?ps) ''a.ts'' () (alloc [''x'']) [] = Inr (acc, programs) \<and>
      codemod_transform (counting_plugin ''c'' 2)
        \<lparr>ctx_scriptASTs = Some [ast_ref], ctx_programs = programs, ctx_sfcAST = JNull,
         ctx_filename = ''a.ts'', ctx_opts = ()\<rparr> = Inr (2, res)"
    unfolding ast two third by blast
  moreover from names have "map fst [(''a'', 1::int), (''b'', 1), (''c'', 2)] = [''a'', ''b'', ''c'']"
    by simp
  moreover note example_vue_run
    stats_one_pair_per_plugin[THEN conjunct2, rule_format, OF example_vue_run, THEN conjunct1]
  ultimately show ?thesis using example_ts_run by blast
qed

text \<open>
  Claim C9. For a file name that does not end in \<open>.vue\<close>, the code \<open>transform\<close> returns is
  what the renderer prints for the parsed program object as the plugins left it (the
  object bound to \<open>ast\<close>, whatever the plugins did to the arrays they were handed),
  followed by one newline; so it ends in a newline whatever the renderer printed.
\<close>

theorem ts_code_ends_with_newline:
  assumes "\<not> str_endsWith fname ''.vue''" and "transform E text fname plugins os = Inr r"
  shows "\<exists>ast programs.
           parseTs E text = Inr ast \<and>
           run_codemods_ts plugins fname os (alloc [ast]) [] = Inr (stats r, programs) \<and>
           code r = recastPrint E (programs ast_ref) @ [nl] \<and>
           str_endsWith (code r) [nl]"
proof -
  from assms have "transformTypescriptFile E text fname plugins os = Inr r"
    by (simp add: transform_def)
  from transformTypescriptFile_InrD[OF this] obtain ast programs where
    "parseTs E text = Inr ast" and
    "run_codemods_ts plugins fname os (alloc [ast]) [] = Inr (stats r, programs)" and
    c: "code r = recastPrint E (programs ast_ref) @ [nl]"
    by blast
  moreover from c have "str_endsWith (code r) [nl]"
    by (simp add: str_endsWith_def)
  ultimately show ?thesis by blast
qed

theorem ts_code_ends_with_newline_witness:
  "\<not> str_endsWith ''a.ts'' ''.vue'' \<and>
   (\<exists>ast programs.
      parseTs example_externals ''x'' = Inr ast \<and>
      run_codemods_ts
        [appending_plugin ''a'' ''!'', replacing_plugin ''b'' ''y'', counting_plugin ''c'' 2]
        ''a.ts'' () (alloc [ast]) []
        = Inr (stats \<lparr>code = ''x!'' @ [nl], stats = [(''a'', 1), (''b'', 1), (''c'', 2)]\<rparr>, programs) \<and>
      code \<lparr>code = ''x!'' @ [nl], stats = [(''a'', 1), (''b'', 1), (''c'', 2)]\<rparr>
        = recastPrint example_externals (programs ast_ref) @ [nl] \<and>
      str_endsWith (code \<lparr>code = ''x!'' @ [nl], stats = [(''a'', 1), (''b'', 1), (''c'', 2)]\<rparr>) [nl])"
proof -
  have h: "\<not> str_endsWith ''a.ts'' ''.vue''"
    by (simp add: str_endsWith_def)
  from ts_code_ends_with_newline[OF h example_ts_run] h show ?thesis by blast
qed

text \<open>
  Claim C8. If a plugin's \<open>transform\<close> raises when it is called (on the trees as the
  plugins before it left them), the pass ends with that same error: nothing catches
  it, and there is no result, so no code and no stats. For a file name that does not end
  in \<open>.vue\<close> this is the outcome of \<open>transform\<close>; the loop of \<open>transformVueFile\<close>
  behaves the same way (\<open>vue_pass\<close>). The outcome of a pass is a value of a sum type: a
  complete result or an error, never a part of a result.
\<close>

theorem plugin_error_propagates:
  assumes i: "i < length plugins"
  shows "(\<not> str_endsWith fname ''.vue'' \<longrightarrow>
            parseTs E text = Inr ast \<longrightarrow>
            run_codemods_ts (take i plugins) fname os (alloc [ast]) [] = Inr (acc, programs) \<longrightarrow>
            codemod_transform (plugins ! i)
              \<lparr>ctx_scriptASTs = Some [ast_ref], ctx_programs = programs, ctx_sfcAST = JNull,
               ctx_filename = fname, ctx_opts = os\<rparr> = Inl e \<longrightarrow>
            transform E text fname plugins os = Inl e)
       \<and> (run_codemods (take i plugins) fname os (array_of scriptASTs) (programs_of scriptASTs)
              (templateAst_of sfcAST) [] = Inr (acc', scripts, programs', tmpl) \<longrightarrow>
            codemod_transform (plugins ! i)
              \<lparr>ctx_scriptASTs = scripts, ctx_programs = programs',
               ctx_sfcAST = (if nullish tmpl then JNull else tmpl),
               ctx_filename = fname, ctx_opts = os\<rparr> = Inl e' \<longrightarrow>
            vue_pass E text fname plugins os scriptASTs sfcAST = Inl e')"
proof (intro conjI impI)
  assume ts: "\<not> str_endsWith fname ''.vue''" and p: "parseTs E text = Inr ast"
    and pre: "run_codemods_ts (take i plugins) fname os (alloc [ast]) [] = Inr (acc, programs)"
    and call: "codemod_transform (plugins ! i)
              \<lparr>ctx_scriptASTs = Some [ast_ref], ctx_programs = programs, ctx_sfcAST = JNull,
               ctx_filename = fname, ctx_opts = os\<rparr> = Inl e"
  have "run_codemods_ts (take i plugins @ (plugins ! i # drop (Suc i) plugins)) fname os
          (alloc [ast]) [] = Inl e"
    unfolding run_codemods_ts_append using pre call by simp
  then have "run_codemods_ts plugins fname os (alloc [ast]) [] = Inl e"
    using i by (simp add: id_take_nth_drop[symmetric])
  then have "transformTypescriptFile E text fname plugins os = Inl e"
    using p by (simp add: transformTypescriptFile_def)
  with ts show "transform E text fname plugins os = Inl e" by (simp add: transform_def)
next
  assume pre: "run_codemods (take i plugins) fname os (array_of scriptASTs) (programs_of scriptASTs)
              (templateAst_of sfcAST) [] = Inr (acc', scripts, programs', tmpl)"
    and call: "codemod_transform (plugins ! i)
              \<lparr>ctx_scriptASTs = scripts, ctx_programs = programs',
               ctx_sfcAST = (if nullish tmpl then JNull else tmpl),
               ctx_filename = fname, ctx_opts = os\<rparr> = Inl e'"
  have "run_codemods (take i plugins @ (plugins ! i # drop (Suc i) plugins)) fname os
          (array_of scriptASTs) (programs_of scriptASTs) (templateAst_of sfcAST) [] = Inl e'"
    unfolding run_codemods_append using pre call by simp
  then have "run_codemods plugins fname os (array_of scriptASTs) (programs_of scriptASTs)
               (templateAst_of sfcAST) [] = Inl e'"
    using i by (simp add: id_take_nth_drop[symmetric])
  then show "vue_pass E text fname plugins os scriptASTs sfcAST = Inl e'"
    by (simp add: vue_pass_def)
qed

theorem plugin_error_propagates_witness:
  "transform example_externals ''x'' ''a.ts''
     [appending_plugin ''a'' ''!'', failing_plugin, counting_plugin ''b'' 2] ()
   = Inl (PluginError ''boom'') \<and>
   vue_pass example_externals ''x'' ''a.vue'' [counting_plugin ''a'' 1, failing_plugin] ()
     (Some []) \<lparr>templateBody = Some example_doc\<rparr>
   = Inl (PluginError ''boom'')"
proof -
  let ?ps = "[appending_plugin ''a'' ''!'', failing_plugin, counting_plugin ''b'' 2]"
  let ?P = "(\<lambda>r. if r \<in> set [ast_ref] then map_option (\<lambda>src. src @ ''!'') (alloc [''x''] r)
                  else alloc [''x''] r)"
  have i: "1 < length ?ps" by simp
  have ts: "\<not> str_endsWith ''a.ts'' ''.vue''" by (simp add: str_endsWith_def)
  have p: "parseTs example_externals ''x'' = Inr ''x''"
    by (simp add: parseTs_def example_externals_def)
  have pre: "run_codemods_ts (take 1 ?ps) ''a.ts'' () (alloc [''x'']) [] = Inr ([(''a'', 1)], ?P)"
    by (simp add: appending_plugin_def handed_array_def cong: if_cong)
  have call: "codemod_transform (?ps ! 1)
                \<lparr>ctx_scriptASTs = Some [ast_ref], ctx_programs = ?P, ctx_sfcAST = JNull,
                 ctx_filename = ''a.ts'', ctx_opts = ()\<rparr> = Inl (PluginError ''boom'')"
    by (simp add: failing_plugin_def)
  let ?qs = "[counting_plugin ''a'' 1, failing_plugin]"
  let ?sfc = "\<lparr>templateBody = Some example_doc\<rparr>"
  have j: "1 < length ?qs" by simp
  have t: "templateAst_of ?sfc = example_doc" by (simp add: templateAst_of_def)
  have n: "\<not> nullish example_doc" by (simp add: nullish_def example_doc_def)
  have pre': "run_codemods (take 1 ?qs) ''a.vue'' () (array_of (Some [])) (programs_of (Some []))
                (templateAst_of ?sfc) []
              = Inr ([(''a'', 1)], Some [], programs_of (Some []), example_doc)"
    using n by (simp add: t counting_plugin_def handed_array_def array_of_def refs_of_def)
  have call': "codemod_transform (?qs ! 1)
                 \<lparr>ctx_scriptASTs = Some [], ctx_programs = programs_of (Some []),
                  ctx_sfcAST = (if nullish example_doc then JNull else example_doc),
                  ctx_filename = ''a.vue'', ctx_opts = ()\<rparr> = Inl (PluginError ''boom'')"
    by (simp add: failing_plugin_def)
  from plugin_error_propagates[OF i, THEN conjunct1, rule_format, OF ts p pre call]
    plugin_error_propagates[OF j, THEN conjunct2, rule_format, OF pre' call']
  show ?thesis by blast
qed

section \<open>Identity\<close>






section \<open>The text handed to the component parser\<close>

lemma str_includes_append:
  "str_includes ys p \<Longrightarrow> str_includes (xs @ ys) p"
proof (induction xs)
  case Nil
  then show ?case by simp
next
  case (Cons x xs)
  then show ?case by simp
qed

lemma template_suffix_includes: "str_includes template_suffix ''<template''"
  by (simp add: template_suffix_def str_startsWith_def)

lemma parser_input_includes: "str_includes (parser_input text) ''<template''"
  by (simp add: parser_input_def str_includes_append template_suffix_includes)

text \<open>
  Claim C10, as amended. For a text that does not contain \<open><template\<close>, \<open>parseVue\<close> hands
  the parser the text with a newline and \<open><template></template>\<close> appended, a text that
  does contain \<open><template\<close>. An error of the parser is the error of \<open>parseVue\<close>. When the
  parser returns a component, \<open>vueAst.templateBody!.parent\<close> throws a \<open>TypeError\<close> if
  the component has no template body, and \<open>parseVue\<close> goes on to parse the scripts if it
  has one: whether the body is there is up to the parser.
\<close>

theorem template_appended_before_parsing:
  assumes absent: "\<not> str_includes text ''<template''"
  shows "parser_input text = text @ template_suffix \<and>
         str_includes (parser_input text) ''<template'' \<and>
         (\<forall>e. vueParse E (text @ template_suffix) = Inl e \<longrightarrow> parseVue E text = Inl e) \<and>
         (\<forall>ast. vueParse E (text @ template_suffix) = Inr ast \<longrightarrow>
            parseVue E text =
              (case templateBody ast of
                 None \<Rightarrow> Inl TypeError
               | Some doc \<Rightarrow>
                   bind (mapM (\<lambda>el. bind (scriptSource (text @ template_suffix) el) (recastParse E))
                           (findAllScripts E doc))
                     (\<lambda>asts. Inr \<lparr>vueAst = ast, scriptAsts = asts\<rparr>)))"
proof (intro conjI allI impI)
  show input: "parser_input text = text @ template_suffix"
    using absent by (simp add: parser_input_def)
  show "str_includes (parser_input text) ''<template''"
    by (rule parser_input_includes)
  show "parseVue E text = Inl e" if "vueParse E (text @ template_suffix) = Inl e" for e
    using that by (simp add: parseVue_def input)
  show "parseVue E text =
          (case templateBody ast of
             None \<Rightarrow> Inl TypeError
           | Some doc \<Rightarrow>
               bind (mapM (\<lambda>el. bind (scriptSource (text @ template_suffix) el) (recastParse E))
                       (findAllScripts E doc))
                 (\<lambda>asts. Inr \<lparr>vueAst = ast, scriptAsts = asts\<rparr>))"
    if "vueParse E (text @ template_suffix) = Inr ast" for ast
    using that by (simp add: parseVue_def input)
qed

text \<open>
  Claim C10 as stated (the parsed component always has a template body, and the
  assertion cannot fail) does not hold for a parser that takes the template body from
  the top level of the document: the text \<open><div>\<close> does not contain \<open><template\<close>, the
  template element appended to it lies inside the unclosed \<open>div\<close>, the component has no
  template body, and \<open>parseVue\<close> ends in a \<open>TypeError\<close>.
\<close>

theorem template_body_missing_after_append:
  "\<not> str_includes ''<div>'' ''<template'' \<and>
   vueParse top_level_externals (''<div>'' @ template_suffix) = Inr \<lparr>templateBody = None\<rparr> \<and>
   parseVue top_level_externals ''<div>'' = Inl TypeError"
  by code_simp

lemma example_parseVue:
  "parseVue example_externals ''x''
     = Inr \<lparr>vueAst = \<lparr>templateBody = Some example_doc\<rparr>, scriptAsts = []\<rparr>"
  by code_simp

theorem template_appended_before_parsing_witness:
  "\<not> str_includes ''x'' ''<template'' \<and>
   parser_input ''x'' = ''x'' @ template_suffix \<and>
   str_includes (parser_input ''x'') ''<template'' \<and>
   parseVue example_externals ''x''
     = Inr \<lparr>vueAst = \<lparr>templateBody = Some example_doc\<rparr>, scriptAsts = []\<rparr>"
proof -
  have h: "\<not> str_includes ''x'' ''<template''"
    by (simp add: str_startsWith_def)
  from template_appended_before_parsing[OF h, of example_externals] example_parseVue h
  show ?thesis by blast
qed

section \<open>The root-changed flag and the collapse of the records\<close>

lemma changedNodes_flag:
  "changedNodes orig tmpl flag0 changes = Inr (flag, nodes) \<Longrightarrow>
     flag = (flag0 \<or> (\<exists>p\<in>set changes. length (owning_path (path p)) \<le> 3 \<and> kind p \<noteq> KindE))"
proof (induction changes arbitrary: flag0 nodes)
  case Nil
  then show ?case by simp
next
  case (Cons p ps)
  let ?f = "(if length (owning_path (path p)) \<le> 3 \<and> kind p \<noteq> KindE then True else flag0)"
  from Cons.prems obtain ns where
    rest: "changedNodes orig tmpl ?f ps = Inr (flag, ns)"
    by (auto simp: Let_def bind_Inr_iff)
  from Cons.IH[OF rest] show ?case by auto
qed

lemma entry_shape_entry:
  "entry_shape (entry KindE cur None None)"
  "entry_shape (entry KindN cur None None)"
  "entry_shape (entry KindD cur None None)"
  "entry_shape (entry KindA cur (Some i) (Some KindN))"
  "entry_shape (entry KindA cur (Some i) (Some KindD))"
  by (simp_all add: entry_shape_def entry_def)

lemma deepDiff_entry_shape:
  "\<forall>p\<in>set (deepDiff pre cur lhs rhs). entry_shape p"
  "\<forall>p\<in>set (diffElems pre cur i xs ys). entry_shape p"
  "\<forall>p\<in>set (diffProps pre cur kvs rkvs). entry_shape p"
proof (induction pre cur lhs rhs and pre cur i xs ys and pre cur kvs rkvs
    rule: deepDiff_diffElems_diffProps.induct)
qed (auto simp: entry_shape_entry split: jsval.splits list.splits option.splits if_splits)

lemma diff_entry_shape:
  "diff lhs rhs pre = Some changes \<Longrightarrow> p \<in> set changes \<Longrightarrow> entry_shape p"
  using deepDiff_entry_shape(1)[of pre "[]" lhs rhs]
  by (auto simp: diff_def Let_def entry_shape_entry split: if_splits)

lemma entry_shape_kind:
  "entry_shape p \<Longrightarrow> kind p \<noteq> KindE \<longleftrightarrow> new_or_delete p"
  by (cases "kind p") (auto simp: entry_shape_def new_or_delete_def)

text \<open>
  Claim C2. When the reduction of the change set completes, the root-changed flag is set
  if and only if some entry has an owning path of depth at most 3 and a kind other than
  Edit. Edit entries alone never set the flag, whatever their depth. For the entries of
  the diff, a kind other than Edit is New or Delete: a key added (\<open>N\<close>), a key removed
  (\<open>D\<close>), or an array element added or removed (an entry of kind \<open>A\<close>, whose item is of
  kind \<open>N\<close> or \<open>D\<close>).
\<close>

theorem root_changed_iff:
  assumes "changedNodes originalTemplate templateAst False changes = Inr (rootNodeChanged, nodes)"
  shows "(rootNodeChanged \<longleftrightarrow>
           (\<exists>p\<in>set changes. length (owning_path (path p)) \<le> 3 \<and> kind p \<noteq> KindE))
         \<and> (list_all (\<lambda>p. kind p = KindE) changes \<longrightarrow> \<not> rootNodeChanged)
         \<and> (diff originalTemplate templateAst prefilter = Some changes \<longrightarrow>
              (rootNodeChanged \<longleftrightarrow>
                 (\<exists>p\<in>set changes. length (owning_path (path p)) \<le> 3 \<and> new_or_delete p)))"
proof -
  from changedNodes_flag[OF assms] have
    f: "rootNodeChanged = (\<exists>p\<in>set changes. length (owning_path (path p)) \<le> 3 \<and> kind p \<noteq> KindE)"
    by simp
  moreover have "\<not> rootNodeChanged" if "list_all (\<lambda>p. kind p = KindE) changes"
    using that f by (auto simp: list_all_iff)
  moreover have "rootNodeChanged \<longleftrightarrow>
      (\<exists>p\<in>set changes. length (owning_path (path p)) \<le> 3 \<and> new_or_delete p)"
    if d: "diff originalTemplate templateAst prefilter = Some changes"
  proof -
    have "kind p \<noteq> KindE \<longleftrightarrow> new_or_delete p" if "p \<in> set changes" for p
      using diff_entry_shape[OF d that] by (rule entry_shape_kind)
    with f show ?thesis by blast
  qed
  ultimately show ?thesis by blast
qed

lemma example_appended_diff:
  "diff example_doc example_doc_appended prefilter
     = Some [\<lparr>kind = KindA, path = Some [Key ''children''], index = Some 1, item = Some KindN\<rparr>]"
  by code_simp

lemma example_appended_nodes:
  "changedNodes example_doc example_doc_appended False
     [\<lparr>kind = KindA, path = Some [Key ''children''], index = Some 1, item = Some KindN\<rparr>]
   = Inr (True, [\<lparr>cn_path = [], cn_node = example_doc_appended,
                  cn_start = JNum 0, cn_end = JNum 12\<rparr>])"
  by code_simp

theorem root_changed_iff_witness:
  "changedNodes example_doc example_doc_appended False
     [\<lparr>kind = KindA, path = Some [Key ''children''], index = Some 1, item = Some KindN\<rparr>]
   = Inr (True, [\<lparr>cn_path = [], cn_node = example_doc_appended,
                  cn_start = JNum 0, cn_end = JNum 12\<rparr>]) \<and>
   diff example_doc example_doc_appended prefilter
     = Some [\<lparr>kind = KindA, path = Some [Key ''children''], index = Some 1, item = Some KindN\<rparr>] \<and>
   (\<exists>p\<in>set [\<lparr>kind = KindA, path = Some [Key ''children''], index = Some 1, item = Some KindN\<rparr>].
      length (owning_path (path p)) \<le> 3 \<and> new_or_delete p)"
  using root_changed_iff[OF example_appended_nodes] example_appended_nodes example_appended_diff
  by blast

text \<open>
  Claim C3 at a concrete input. A plugin changes the text of \<open><div>a</div>\<close> to \<open>b\<close> and
  sets the element's \<open>endTag\<close> to \<open>null\<close>. The diff reports the text first (\<open>children\<close> comes
  before \<open>endTag\<close> in the element), so the record of the text node is met first and kept,
  and the record of the element, its structural ancestor, is dropped: the only span patched
  is the text node's.
\<close>

theorem collapse_keeps_first_record:
  "diff example_doc example_doc_mutated prefilter
     = Some [\<lparr>kind = KindE,
              path = Some [Key ''children'', Idx 0, Key ''children'', Idx 0, Key ''value''],
              index = None, item = None\<rparr>,
             \<lparr>kind = KindE, path = Some [Key ''children'', Idx 0, Key ''endTag''],
              index = None, item = None\<rparr>] \<and>
   changedNodes example_doc example_doc_mutated False
     [\<lparr>kind = KindE,
       path = Some [Key ''children'', Idx 0, Key ''children'', Idx 0, Key ''value''],
       index = None, item = None\<rparr>,
      \<lparr>kind = KindE, path = Some [Key ''children'', Idx 0, Key ''endTag''],
       index = None, item = None\<rparr>]
     = Inr (False,
         [\<lparr>cn_path = [Key ''children'', Idx 0, Key ''children'', Idx 0],
           cn_node = example_text_node ''b'', cn_start = JNum 5, cn_end = JNum 6\<rparr>,
          \<lparr>cn_path = [Key ''children'', Idx 0],
           cn_node = example_element ''b'' JNull, cn_start = JNum 0, cn_end = JNum 12\<rparr>]) \<and>
   uniqWith
     [\<lparr>cn_path = [Key ''children'', Idx 0, Key ''children'', Idx 0],
       cn_node = example_text_node ''b'', cn_start = JNum 5, cn_end = JNum 6\<rparr>,
      \<lparr>cn_path = [Key ''children'', Idx 0],
       cn_node = example_element ''b'' JNull, cn_start = JNum 0, cn_end = JNum 12\<rparr>]
     comparator
     = [\<lparr>cn_path = [Key ''children'', Idx 0, Key ''children'', Idx 0],
         cn_node = example_text_node ''b'', cn_start = JNum 5, cn_end = JNum 6\<rparr>] \<and>
   apply_diff example_externals (ms_new ''<div>a</div>'') example_doc example_doc_mutated
     (diff example_doc example_doc_mutated prefilter)
     = Inr \<lparr>original = ''<div>a</div>'', updates = [(JNum 5, JNum 6, ''b'')]\<rparr>"
  by code_simp

subsection \<open>What the collapse does guarantee\<close>

text \<open>
  Whatever the order of the records, no two records that survive the collapse have
  paths of which one is a prefix of the other.
\<close>

lemma take_longer_neq:
  assumes "length xs < length ys"
  shows "take (length ys) xs \<noteq> ys"
proof
  assume "take (length ys) xs = ys"
  then have "length (take (length ys) xs) = length ys" by simp
  with assms show False by simp
qed

lemma comparator_iff:
  "comparator a b \<longleftrightarrow>
     (take (length (cn_path a)) (cn_path b) = cn_path a \<or>
      take (length (cn_path b)) (cn_path a) = cn_path b)"
proof -
  consider (eq) "length (cn_path a) = length (cn_path b)"
    | (lt) "length (cn_path a) < length (cn_path b)"
    | (gt) "length (cn_path b) < length (cn_path a)"
    by linarith
  then show ?thesis
  proof cases
    case eq
    then have "comparator a b \<longleftrightarrow> cn_path a = cn_path b"
      by (simp add: comparator_def)
    moreover have "take (length (cn_path a)) (cn_path b) = cn_path b"
      and "take (length (cn_path b)) (cn_path a) = cn_path a"
      using eq by simp_all
    ultimately show ?thesis by auto
  next
    case lt
    then have "comparator a b \<longleftrightarrow> cn_path a = take (length (cn_path a)) (cn_path b)"
      by (simp add: comparator_def)
    moreover have "take (length (cn_path b)) (cn_path a) \<noteq> cn_path b"
      by (rule take_longer_neq[OF lt])
    ultimately show ?thesis by auto
  next
    case gt
    then have ne: "b \<noteq> a" by auto
    have "comparator a b \<longleftrightarrow> cn_path b = take (length (cn_path b)) (cn_path a)"
      using gt ne by (simp add: comparator_def)
    moreover have "take (length (cn_path a)) (cn_path b) \<noteq> cn_path a"
      by (rule take_longer_neq[OF gt])
    ultimately show ?thesis by auto
  qed
qed

lemma comparator_sym: "comparator a b = comparator b a"
  by (auto simp: comparator_iff)

lemma unrelated_snoc:
  assumes "unrelated cmp r" and "\<not> list_ex (\<lambda>seen. cmp v seen) r"
  shows "unrelated cmp (r @ [v])"
  unfolding unrelated_def
proof (intro allI impI)
  fix i j assume i: "i < length (r @ [v])" and j: "j < i"
  show "\<not> cmp ((r @ [v]) ! i) ((r @ [v]) ! j)"
  proof (cases "i < length r")
    case True
    with j assms(1) show ?thesis by (simp add: unrelated_def nth_append)
  next
    case False
    with i have "i = length r" by simp
    with j assms(2) show ?thesis by (auto simp: nth_append list_ex_iff)
  qed
qed

lemma baseUniq_unrelated:
  "unrelated cmp r \<Longrightarrow> unrelated cmp (baseUniq cmp r xs)"
  by (induction xs arbitrary: r) (simp_all add: unrelated_snoc)

lemma collapse_survivors_unrelated:
  assumes "i < length (uniqWith nodes comparator)" and "j < length (uniqWith nodes comparator)"
    and "i \<noteq> j"
  shows "\<not> comparator (uniqWith nodes comparator ! i) (uniqWith nodes comparator ! j)"
proof -
  have u: "unrelated comparator (uniqWith nodes comparator)"
    unfolding uniqWith_def by (rule baseUniq_unrelated) (simp add: unrelated_def)
  show ?thesis
  proof (cases "j < i")
    case True
    with u assms(1) show ?thesis by (simp add: unrelated_def)
  next
    case False
    with assms(3) have "i < j" by simp
    with u assms(2) have "\<not> comparator (uniqWith nodes comparator ! j) (uniqWith nodes comparator ! i)"
      by (simp add: unrelated_def)
    then show ?thesis by (simp add: comparator_sym)
  qed
qed

section \<open>Bookkeeping fields are invisible to the diff\<close>

lemma length_strip_elems: "length (strip_elems xs) = length xs"
  by (induction xs) simp_all

lemma strip_props_intro:
  "(k, v) \<in> set kvs \<Longrightarrow> k \<notin> set ignoreProperties \<Longrightarrow> (k, strip v) \<in> set (strip_props kvs)"
  by (induction kvs) auto

lemma strip_props_elim:
  "(k, w) \<in> set (strip_props kvs) \<Longrightarrow> \<exists>v. (k, v) \<in> set kvs \<and> w = strip v"
  by (induction kvs) (fastforce split: if_splits)+

lemma wf_props_mem: "wf_props kvs \<Longrightarrow> (k, v) \<in> set kvs \<Longrightarrow> wf_js v"
  by (induction kvs) auto

lemma strip_Arr_eq: "JArr zs = strip b \<Longrightarrow> \<exists>ys. b = JArr ys \<and> zs = strip_elems ys"
  by (cases b) simp_all

lemma strip_Obj_eq: "JObj zs = strip b \<Longrightarrow> \<exists>rkvs. b = JObj rkvs \<and> zs = strip_props rkvs"
  by (cases b) simp_all

lemma strip_prim_eq:
  "(\<forall>xs. a \<noteq> JArr xs) \<Longrightarrow> (\<forall>kvs. a \<noteq> JObj kvs) \<Longrightarrow> strip a = strip b \<Longrightarrow> b = a"
  by (cases a; cases b) simp_all

lemma deepDiff_strip_eq:
  shows "(\<forall>k\<in>set ignoreProperties. pre (Key k)) \<Longrightarrow> wf_js b \<Longrightarrow> strip a = strip b
           \<Longrightarrow> deepDiff pre cur a b = []"
    and "(\<forall>k\<in>set ignoreProperties. pre (Key k)) \<Longrightarrow> wf_elems ys \<Longrightarrow> strip_elems xs = strip_elems ys
           \<Longrightarrow> diffElems pre cur i xs ys = []"
    and "(\<forall>k\<in>set ignoreProperties. pre (Key k)) \<Longrightarrow> wf_props rkvs \<Longrightarrow> distinct (map fst rkvs)
           \<Longrightarrow> (\<forall>k v. (k, v) \<in> set kvs \<longrightarrow> \<not> pre (Key k)
                    \<longrightarrow> (\<exists>r. map_of rkvs k = Some r \<and> strip v = strip r))
           \<Longrightarrow> diffProps pre cur kvs rkvs = []"
proof (induction pre cur a b and pre cur i xs ys and pre cur kvs rkvs
       rule: deepDiff_diffElems_diffProps.induct)
  case (1 pre cur xs rhs)
  from "1.prems"(3) obtain ys where rhs: "rhs = JArr ys" and eq: "strip_elems xs = strip_elems ys"
    using strip_Arr_eq[of "strip_elems xs" rhs] by auto
  have len: "length xs = length ys"
    using eq length_strip_elems[of xs] length_strip_elems[of ys] by simp
  have "diffElems pre cur 0 xs ys = []"
    using "1.IH"[OF rhs "1.prems"(1) _ eq] "1.prems"(2) rhs by simp
  then show ?case using rhs len by simp
next
  case (2 pre cur kvs rhs)
  from "2.prems"(3) obtain rkvs where rhs: "rhs = JObj rkvs" and eq: "strip_props kvs = strip_props rkvs"
    using strip_Obj_eq[of "strip_props kvs" rhs] by auto
  have dist: "distinct (map fst rkvs)" and wf: "wf_props rkvs"
    using "2.prems"(2) rhs by simp_all
  have ign: "k \<notin> set ignoreProperties" if "\<not> pre (Key k)" for k
    using that "2.prems"(1) by blast
  have found: "\<exists>r. map_of rkvs k = Some r \<and> strip v = strip r"
    if "(k, v) \<in> set kvs" and "\<not> pre (Key k)" for k v
  proof -
    have "(k, strip v) \<in> set (strip_props kvs)"
      using that ign by (simp add: strip_props_intro)
    then obtain r where "(k, r) \<in> set rkvs" and "strip v = strip r"
      using strip_props_elim[of k "strip v" rkvs] eq by auto
    then show ?thesis using dist by auto
  qed
  have props: "diffProps pre cur kvs rkvs = []"
    using "2.IH"[OF rhs "2.prems"(1) wf dist] found by blast
  have new: "k \<in> set (map fst kvs) \<or> k = [] \<or> pre (Key k)" if "k \<in> set (map fst rkvs)" for k
  proof (cases "pre (Key k)")
    case True
    then show ?thesis by simp
  next
    case False
    from that obtain r where "(k, r) \<in> set rkvs" by auto
    then have "(k, strip r) \<in> set (strip_props kvs)"
      using ign[OF False] eq by (simp add: strip_props_intro)
    then obtain v where "(k, v) \<in> set kvs"
      using strip_props_elim by blast
    then show ?thesis by force
  qed
  show ?case using rhs props new by simp
next
  case "3_1"
  from strip_prim_eq[OF _ _ "3_1.prems"(3)] show ?case by simp
next
  case "3_2"
  from strip_prim_eq[OF _ _ "3_2.prems"(3)] show ?case by simp
next
  case "3_3"
  from strip_prim_eq[OF _ _ "3_3.prems"(3)] show ?case by simp
next
  case "3_4"
  from strip_prim_eq[OF _ _ "3_4.prems"(3)] show ?case by simp
next
  case "3_5"
  from strip_prim_eq[OF _ _ "3_5.prems"(3)] show ?case by simp
next
  case (4 pre cur i ys)
  then show ?case by simp
next
  case (5 pre cur i x xs ys)
  from "5.prems"(3) obtain y ys' where ys: "ys = y # ys'" and
    ex: "strip x = strip y" and exs: "strip_elems xs = strip_elems ys'"
    by (cases ys) auto
  have wy: "wf_js y" and wys: "wf_elems ys'" using "5.prems"(2) ys by simp_all
  have rest: "diffElems pre cur (Suc i) xs ys' = []"
    using "5.IH"(1)[OF ys "5.prems"(1) wys exs] .
  have here: "deepDiff pre (cur @ [Idx i]) x y = []" if "\<not> pre (Idx i)"
    using "5.IH"(2)[OF ys that "5.prems"(1) wy ex] .
  show ?case using ys rest here by simp
next
  case (6 pre cur rkvs)
  then show ?case by simp
next
  case (7 pre cur k v kvs rkvs)
  have rest: "diffProps pre cur kvs rkvs = []"
    using "7.IH"(2)[OF "7.prems"(1,2,3)] "7.prems"(4) by simp
  have here: "(case map_of rkvs k of
                 Some r \<Rightarrow> deepDiff pre (cur @ [Key k]) v r
               | None \<Rightarrow> [entry KindD (cur @ [Key k]) None None]) = []"
    if np: "\<not> pre (Key k)"
  proof -
    from "7.prems"(4) np obtain r where r: "map_of rkvs k = Some r" and e: "strip v = strip r"
      by auto
    have "wf_js r"
      using wf_props_mem[OF "7.prems"(2) map_of_SomeD[OF r]] .
    from "7.IH"(1)[OF np r "7.prems"(1) this e] r show ?thesis by simp
  qed
  show ?case using rest here by simp
qed


lemma prefilter_ignores: "\<forall>k\<in>set ignoreProperties. prefilter (Key k)"
  by (simp add: prefilter_def seg_key_def)

lemma diff_strip_eq:
  assumes "wf_js b" and "strip a = strip b"
  shows "diff a b prefilter = None"
proof -
  have u: "a = JUndefined \<longleftrightarrow> b = JUndefined"
    using assms(2) by (cases a; cases b) simp_all
  have "deepDiff prefilter [] a b = []"
    using deepDiff_strip_eq(1)[OF prefilter_ignores assms] .
  with u show ?thesis by (simp add: diff_def)
qed

lemma ms_toString_new: "ms_toString E (ms_new text) = Inr text"
  by (simp add: ms_toString_def ms_new_def)

text \<open>
  Claim C5, as amended. If the template tree after the plugins and after the re-rendering
  of the script hosts differs from the snapshot only in the fields of \<open>ignoreProperties\<close>
  (\<open>parent\<close>, \<open>loc\<close>, \<open>range\<close>, \<open>variables\<close>), that is, the two trees are equal once these
  fields are removed from every object, then the diff has no entry, nothing is patched,
  and the pass of \<open>transformVueFile\<close> from line 56 on returns the input text unchanged.
\<close>

theorem bookkeeping_only_no_change:
  assumes run: "run_codemods plugins fname os (array_of scriptASTs) (programs_of scriptASTs)
                  (templateAst_of sfcAST) [] = Inr (sts, scripts, programs, tmpl)"
    and rerender: "rerender_scripts E scripts programs tmpl = Inr tmpl'"
    and wf: "wf_js tmpl'"
    and same: "strip (templateAst_of sfcAST) = strip tmpl'"
  shows "diff (templateAst_of sfcAST) tmpl' prefilter = None \<and>
         apply_diff E (ms_new text) (templateAst_of sfcAST) tmpl'
           (diff (templateAst_of sfcAST) tmpl' prefilter) = Inr (ms_new text) \<and>
         vue_pass E text fname plugins os scriptASTs sfcAST = Inr \<lparr>code = text, stats = sts\<rparr>"
proof -
  have d: "diff (templateAst_of sfcAST) tmpl' prefilter = None"
    using diff_strip_eq[OF wf same] .
  then have a: "apply_diff E (ms_new text) (templateAst_of sfcAST) tmpl'
           (diff (templateAst_of sfcAST) tmpl' prefilter) = Inr (ms_new text)"
    by (simp add: apply_diff_def)
  have "vue_pass E text fname plugins os scriptASTs sfcAST = Inr \<lparr>code = text, stats = sts\<rparr>"
    using run rerender d
    by (cases "js_truthy tmpl \<and> js_truthy (templateAst_of sfcAST)")
       (simp_all add: vue_pass_def Let_def apply_diff_def ms_toString_new)
  with d a show ?thesis by blast
qed

text \<open>
  Claim C5 as stated (the tree after the plugins is compared with the snapshot) fails,
  because the core itself rewrites the text of every script host before the diff. The
  component \<open><script>const s = 1</script>\<close> with no plugin at all: the tree after the
  plugin loop is the snapshot, the re-rendering puts the script between two newlines, the
  diff has one Edit entry for the text, and the text that comes out is not the input.
\<close>

theorem untouched_tree_still_patched:
  "run_codemods ([]::(string, unit) codemod list) ''a.vue'' ()
     (array_of (Some [example_script_source])) (programs_of (Some [example_script_source]))
     (example_script_doc example_script_source) []
     = Inr ([],
            array_of (Some [example_script_source]), programs_of (Some [example_script_source]),
            example_script_doc example_script_source) \<and>
   rerender_scripts splicing_externals
     (array_of (Some [example_script_source])) (programs_of (Some [example_script_source]))
     (example_script_doc example_script_source)
     = Inr (example_script_doc (nl # example_script_source @ [nl])) \<and>
   diff (example_script_doc example_script_source)
     (example_script_doc (nl # example_script_source @ [nl])) prefilter
     = Some [\<lparr>kind = KindE,
              path = Some [Key ''children'', Idx 0, Key ''children'', Idx 0, Key ''value''],
              index = None, item = None\<rparr>] \<and>
   vue_pass splicing_externals example_script_text ''a.vue'' ([]::(string, unit) codemod list) ()
     (Some [example_script_source])
     \<lparr>templateBody = Some (example_script_doc example_script_source)\<rparr>
     = Inr \<lparr>code = ''<script>'' @ [nl] @ ''const s = 1'' @ [nl] @ ''</script>'', stats = []\<rparr> \<and>
   ''<script>'' @ [nl] @ ''const s = 1'' @ [nl] @ ''</script>'' \<noteq> example_script_text"
proof (intro conjI)
  show "run_codemods ([]::(string, unit) codemod list) ''a.vue'' ()
     (array_of (Some [example_script_source])) (programs_of (Some [example_script_source]))
     (example_script_doc example_script_source) []
     = Inr ([],
            array_of (Some [example_script_source]), programs_of (Some [example_script_source]),
            example_script_doc example_script_source)"
    by simp
qed code_simp+

lemma example_refresh_run:
  "run_codemods [refreshing_plugin] ''a.vue'' () (array_of (Some [])) (programs_of (Some []))
     (templateAst_of \<lparr>templateBody = Some example_doc\<rparr>) []
     = Inr ([(''refresh'', 0)], Some [], programs_of (Some []), example_doc_refreshed)"
  by (simp add: refreshing_plugin_def handed_array_def array_of_def refs_of_def templateAst_of_def
      example_doc_def nullish_def)

lemma example_refresh_rerender:
  "rerender_scripts example_externals (Some []) (programs_of (Some [])) example_doc_refreshed
     = Inr example_doc_refreshed"
  by code_simp

lemma example_refresh_wf: "wf_js example_doc_refreshed"
  by code_simp

lemma example_refresh_strip:
  "strip (templateAst_of \<lparr>templateBody = Some example_doc\<rparr>) = strip example_doc_refreshed"
  by code_simp

theorem bookkeeping_only_no_change_witness:
  "strip (templateAst_of \<lparr>templateBody = Some example_doc\<rparr>) = strip example_doc_refreshed \<and>
   example_doc \<noteq> example_doc_refreshed \<and>
   diff (templateAst_of \<lparr>templateBody = Some example_doc\<rparr>) example_doc_refreshed prefilter = None \<and>
   vue_pass example_externals ''x'' ''a.vue'' [refreshing_plugin] () (Some [])
     \<lparr>templateBody = Some example_doc\<rparr>
     = Inr \<lparr>code = ''x'', stats = [(''refresh'', 0)]\<rparr>"
proof -
  have ne: "example_doc \<noteq> example_doc_refreshed" by code_simp
  from bookkeeping_only_no_change[OF example_refresh_run example_refresh_rerender
      example_refresh_wf example_refresh_strip] example_refresh_strip ne
  show ?thesis by blast
qed

section \<open>Re-rendering the script hosts before the diff\<close>

declare dec.simps [simp del]

lemma digits_below_10: "list_all (\<lambda>d. digit d \<in> set ''0123456789'') [0..<10]"
  by code_simp

lemma digit_in: "n < 10 \<Longrightarrow> digit n \<in> set ''0123456789''"
proof -
  assume "n < 10"
  then have "n \<in> set [0..<10]" by simp
  with digits_below_10 show ?thesis
    unfolding list_all_iff by blast
qed

lemma dec_digits: "set (dec n) \<subseteq> set ''0123456789''"
proof (induction n rule: dec.induct)
  case (1 n)
  show ?case
  proof (cases "n < 10")
    case True
    then have "dec n = [digit n]" by (subst dec.simps) simp
    with digit_in[OF True] show ?thesis by simp
  next
    case False
    then have d: "dec n = dec (n div 10) @ [digit (n mod 10)]" by (subst dec.simps) simp
    have "digit (n mod 10) \<in> set ''0123456789''" by (rule digit_in) simp
    with "1.IH"[OF False] d show ?thesis by simp
  qed
qed

lemma index_of_key_None:
  assumes "c \<in> set k" and "c \<notin> set ''0123456789''"
  shows "index_of_key k n = None"
proof -
  have "dec i \<noteq> k" for i
    using assms dec_digits[of i] by blast
  then show ?thesis by (simp add: index_of_key_def find_None_iff)
qed

lemma dec_0: "dec 0 = ''0''"
  by code_simp

lemma index_of_key_0: "0 < n \<Longrightarrow> index_of_key ''0'' n = Some 0"
proof -
  assume "0 < n"
  then have "[0..<n] = 0 # [1..<n]" by (simp add: upt_conv_Cons)
  then show ?thesis by (simp add: index_of_key_def dec_0)
qed

lemma index_of_key_0_empty: "index_of_key ''0'' 0 = None"
  by (simp add: index_of_key_def)

lemma typed_is_object:
  assumes "js_prop v (Key ''type'') = JStr t" and "1 < length t"
  shows "\<exists>kvs. v = JObj kvs"
proof (cases v)
  case (JArr xs)
  have "index_of_key ''type'' (length xs) = None"
    by (rule index_of_key_None[of "CHR ''t''"]) simp_all
  with assms JArr show ?thesis by (simp add: seg_key_def)
next
  case (JStr cs)
  have "index_of_key ''type'' (length cs) = None"
    by (rule index_of_key_None[of "CHR ''t''"]) simp_all
  with assms JStr show ?thesis by (simp add: seg_key_def)
qed (use assms in simp_all)

lemma lookup_set_key: "lookup (set_key kvs k v) k = v"
  by (induction kvs) (auto simp: lookup_def)

lemma children_is_object:
  assumes "js_prop v (Key ''children'') = JArr nodes"
  shows "\<exists>kvs. v = JObj kvs"
proof (cases v)
  case (JArr xs)
  have "index_of_key ''children'' (length xs) = None"
    by (rule index_of_key_None[of "CHR ''c''"]) simp_all
  with assms JArr show ?thesis by (simp add: seg_key_def)
next
  case (JStr cs)
  with assms show ?thesis by (simp add: seg_key_def split: option.splits if_splits)
qed (use assms in simp_all)

lemma overwrite_host_value:
  assumes host: "is_script_host node = Inr True"
  shows "get (overwrite_host node txt) [Key ''children'', Idx 0, Key ''value''] = JStr txt"
proof -
  from host have ty: "js_prop node (Key ''type'') = JStr ''VElement''"
    by (auto simp: is_script_host_def split: if_splits)
  then obtain kvs where node: "node = JObj kvs"
    using typed_is_object[of node "''VElement''"] by auto
  define children where "children = js_prop node (Key ''children'')"
  define c0 where "c0 = js_prop children (Idx 0)"
  from host have nn: "\<not> nullish children" and c0n: "\<not> nullish c0"
    and c0t: "js_prop c0 (Key ''type'') = JStr ''VText''"
    by (auto simp: is_script_host_def js_member_def bind_Inr_iff children_def c0_def split: if_splits)
  obtain ckvs where c0: "c0 = JObj ckvs"
    using typed_is_object[OF c0t] by auto
  define c0' where "c0' = js_set c0 (Key ''value'') (JStr txt)"
  have c0': "c0' = JObj (set_key ckvs ''value'' (JStr txt))"
    by (simp add: c0'_def c0 seg_key_def)
  define children' where "children' = js_set children (Idx 0) c0'"
  have ch: "\<not> nullish children' \<and> js_prop children' (Idx 0) = c0'"
  proof (cases children)
    case (JArr xs)
    have len: "0 < length xs"
    proof (rule ccontr)
      assume "\<not> 0 < length xs"
      then have "js_prop children (Idx 0) = JUndefined"
        using JArr by (simp add: seg_key_def dec_0 index_of_key_0_empty)
      with c0 show False by (simp add: c0_def)
    qed
    then have "children' = JArr (xs[0 := c0'])"
      using JArr by (simp add: children'_def seg_key_def dec_0 index_of_key_0)
    then show ?thesis using len
      by (simp add: nullish_def seg_key_def dec_0 index_of_key_0)
  next
    case (JObj okvs)
    then have "children' = JObj (set_key okvs ''0'' c0')"
      by (simp add: children'_def seg_key_def dec_0)
    then show ?thesis
      by (simp add: nullish_def seg_key_def dec_0 lookup_set_key)
  next
    case (JStr cs)
    then have "\<forall>kvs. js_prop children (Idx 0) \<noteq> JObj kvs"
      by (simp add: seg_key_def split: option.splits)
    with c0 show ?thesis by (simp add: c0_def)
  qed (use nn c0 in \<open>simp_all add: nullish_def c0_def\<close>)
  have ow: "overwrite_host node txt = JObj (set_key kvs ''children'' children')"
    by (simp add: overwrite_host_def Let_def node children'_def c0'_def c0_def children_def seg_key_def)
  have "js_prop (overwrite_host node txt) (Key ''children'') = children'"
    by (simp add: ow seg_key_def lookup_set_key)
  moreover have "\<not> nullish (overwrite_host node txt)"
    by (simp add: ow nullish_def)
  moreover have "js_prop c0' (Key ''value'') = JStr txt" and "\<not> nullish c0'"
    by (simp_all add: c0' seg_key_def lookup_set_key nullish_def)
  ultimately show ?thesis
    using ch by (simp add: get_def)
qed


lemma host_index_0: "host_index nodes 0 = 0"
  by (simp add: host_index_def)

lemma host_index_Suc:
  "host_index (n # ns) (Suc j) = (if is_script_host n = Inr True then 1 else 0) + host_index ns j"
  by (simp add: host_index_def)


lemma rerender_children_nth:
  "rerender_children E scripts programs i nodes = Inr nodes' \<Longrightarrow>
     length nodes' = length nodes \<and>
     (\<forall>j<length nodes.
        if is_script_host (nodes ! j) = Inr True
        then \<exists>c. newCode E scripts programs (i + host_index nodes j) = Inr c \<and>
                 nodes' ! j = overwrite_host (nodes ! j) (host_text c)
        else nodes' ! j = nodes ! j)"
proof (induction nodes arbitrary: i nodes')
  case Nil
  then show ?case by simp
next
  case (Cons n ns)
  from Cons.prems obtain host where h: "is_script_host n = Inr host"
    by (auto simp: bind_Inr_iff)
  show ?case
  proof (cases host)
    case True
    with Cons.prems h obtain c rest where
      c: "newCode E scripts programs i = Inr c" and
      r: "rerender_children E scripts programs (Suc i) ns = Inr rest" and
      n': "nodes' = overwrite_host n (host_text c) # rest"
      by (auto simp: bind_Inr_iff)
    from Cons.IH[OF r] have len: "length rest = length ns" and
      ih: "\<And>j. j < length ns \<Longrightarrow>
             if is_script_host (ns ! j) = Inr True
             then \<exists>c. newCode E scripts programs (Suc i + host_index ns j) = Inr c \<and>
                      rest ! j = overwrite_host (ns ! j) (host_text c)
             else rest ! j = ns ! j"
      by blast+
    have "if is_script_host ((n # ns) ! j) = Inr True
          then \<exists>c. newCode E scripts programs (i + host_index (n # ns) j) = Inr c \<and>
                   nodes' ! j = overwrite_host ((n # ns) ! j) (host_text c)
          else nodes' ! j = (n # ns) ! j" if "j < length (n # ns)" for j
    proof (cases j)
      case 0
      then show ?thesis using n' h True c by (simp add: host_index_0)
    next
      case (Suc j')
      with that have "j' < length ns" by simp
      from ih[OF this] show ?thesis using Suc n' h True
        by (auto simp: host_index_Suc split: if_splits)
    qed
    moreover have "length nodes' = length (n # ns)" using len n' by simp
    ultimately show ?thesis by blast
  next
    case False
    with Cons.prems h obtain rest where
      r: "rerender_children E scripts programs i ns = Inr rest" and
      n': "nodes' = n # rest"
      by (auto simp: bind_Inr_iff)
    from Cons.IH[OF r] have len: "length rest = length ns" and
      ih: "\<And>j. j < length ns \<Longrightarrow>
             if is_script_host (ns ! j) = Inr True
             then \<exists>c. newCode E scripts programs (i + host_index ns j) = Inr c \<and>
                      rest ! j = overwrite_host (ns ! j) (host_text c)
             else rest ! j = ns ! j"
      by blast+
    have "if is_script_host ((n # ns) ! j) = Inr True
          then \<exists>c. newCode E scripts programs (i + host_index (n # ns) j) = Inr c \<and>
                   nodes' ! j = overwrite_host ((n # ns) ! j) (host_text c)
          else nodes' ! j = (n # ns) ! j" if "j < length (n # ns)" for j
    proof (cases j)
      case 0
      then show ?thesis using n' h False by (simp add: host_index_0)
    next
      case (Suc j')
      with that have "j' < length ns" by simp
      from ih[OF this] show ?thesis using Suc n' h False
        by (auto simp: host_index_Suc split: if_splits)
    qed
    moreover have "length nodes' = length (n # ns)" using len n' by simp
    ultimately show ?thesis by blast
  qed
qed

text \<open>
  Claim C4, as amended. In the pass of \<open>transformVueFile\<close> from line 56 on, for the root's
  children in order: the text child of the i-th script host (a top-level \<open>script\<close> element
  whose first child is a text node) gets as its value the printed i-th script tree, in
  which every marker comment \<open>/* METAMORPH_START */\<close> followed by newlines has been
  replaced by one newline, with a newline put in front exactly when that text does not
  start with one, and a newline put behind; a child that is not a host is left as it
  is. The diff of the pass is the diff of the snapshot against the tree so re-rendered.
\<close>

theorem script_hosts_rerendered_before_diff:
  assumes children: "js_prop templateAst (Key ''children'') = JArr nodes"
    and rerender: "rerender_scripts E scripts programs templateAst = Inr templateAst'"
  shows "(\<exists>nodes'.
            js_prop templateAst' (Key ''children'') = JArr nodes' \<and>
            length nodes' = length nodes \<and>
            (\<forall>j<length nodes.
               if is_script_host (nodes ! j) = Inr True
               then \<exists>p. script_at scripts programs (host_index nodes j) = Inr p \<and>
                        get (nodes' ! j) [Key ''children'', Idx 0, Key ''value'']
                          = JStr (host_text (replace_marker (recastPrint E p)))
               else nodes' ! j = nodes ! j))
         \<and> (\<forall>plugins fname os sts scriptASTs sfcAST.
               run_codemods plugins fname os (array_of scriptASTs) (programs_of scriptASTs)
                 (templateAst_of sfcAST) [] = Inr (sts, scripts, programs, templateAst) \<longrightarrow>
               js_truthy (templateAst_of sfcAST) \<longrightarrow>
               vue_pass E text fname plugins os scriptASTs sfcAST
                 = bind (apply_diff E (ms_new text) (templateAst_of sfcAST) templateAst'
                           (diff (templateAst_of sfcAST) templateAst' prefilter))
                     (\<lambda>ms'. bind (ms_toString E ms') (\<lambda>out. Inr \<lparr>code = out, stats = sts\<rparr>)))"
proof (intro conjI allI impI)
  from children obtain kvs where root: "templateAst = JObj kvs"
    using children_is_object by blast
  from rerender children obtain nodes' where
    rc: "rerender_children E scripts programs 0 nodes = Inr nodes'" and
    t': "templateAst' = js_set templateAst (Key ''children'') (JArr nodes')"
    by (auto simp: rerender_scripts_def bind_Inr_iff)
  have c': "js_prop templateAst' (Key ''children'') = JArr nodes'"
    by (simp add: t' root seg_key_def lookup_set_key)
  from rerender_children_nth[OF rc] have len: "length nodes' = length nodes" and
    nth: "\<And>j. j < length nodes \<Longrightarrow>
            if is_script_host (nodes ! j) = Inr True
            then \<exists>c. newCode E scripts programs (0 + host_index nodes j) = Inr c \<and>
                     nodes' ! j = overwrite_host (nodes ! j) (host_text c)
            else nodes' ! j = nodes ! j"
    by blast+
  have "if is_script_host (nodes ! j) = Inr True
        then \<exists>p. script_at scripts programs (host_index nodes j) = Inr p \<and>
                 get (nodes' ! j) [Key ''children'', Idx 0, Key ''value'']
                   = JStr (host_text (replace_marker (recastPrint E p)))
        else nodes' ! j = nodes ! j" if "j < length nodes" for j
  proof (cases "is_script_host (nodes ! j) = Inr True")
    case True
    with nth[OF that] obtain c where
      c: "newCode E scripts programs (host_index nodes j) = Inr c" and
      n: "nodes' ! j = overwrite_host (nodes ! j) (host_text c)"
      by auto
    from c obtain p where p: "script_at scripts programs (host_index nodes j) = Inr p"
      and cp: "c = replace_marker (recastPrint E p)"
      by (auto simp: newCode_def bind_Inr_iff)
    from overwrite_host_value[OF True] n cp
    have "get (nodes' ! j) [Key ''children'', Idx 0, Key ''value'']
            = JStr (host_text (replace_marker (recastPrint E p)))"
      by simp
    with p True show ?thesis by simp
  next
    case False
    with nth[OF that] show ?thesis by simp
  qed
  with c' len show "\<exists>nodes'.
            js_prop templateAst' (Key ''children'') = JArr nodes' \<and>
            length nodes' = length nodes \<and>
            (\<forall>j<length nodes.
               if is_script_host (nodes ! j) = Inr True
               then \<exists>p. script_at scripts programs (host_index nodes j) = Inr p \<and>
                        get (nodes' ! j) [Key ''children'', Idx 0, Key ''value'']
                          = JStr (host_text (replace_marker (recastPrint E p)))
               else nodes' ! j = nodes ! j)"
    by blast
next
  fix plugins :: "('a, 'b) codemod list" and fname os sts scriptASTs sfcAST
  assume run: "run_codemods plugins fname os (array_of scriptASTs) (programs_of scriptASTs)
                 (templateAst_of sfcAST) [] = Inr (sts, scripts, programs, templateAst)"
    and tr: "js_truthy (templateAst_of sfcAST)"
  from children obtain kvs where root: "templateAst = JObj kvs"
    using children_is_object by blast
  then have "js_truthy templateAst" by (simp add: js_truthy_def)
  with run tr rerender show "vue_pass E text fname plugins os scriptASTs sfcAST
      = bind (apply_diff E (ms_new text) (templateAst_of sfcAST) templateAst'
                (diff (templateAst_of sfcAST) templateAst' prefilter))
          (\<lambda>ms'. bind (ms_toString E ms') (\<lambda>out. Inr \<lparr>code = out, stats = sts\<rparr>))"
    by (simp add: vue_pass_def Let_def)
qed

text \<open>
  Claim C4 as stated (the value is the rendered text between newlines) fails when the
  rendered text holds the marker comment: the script that prints as the marker, a
  newline and \<open>x\<close> leaves the host text at a newline, \<open>x\<close> and a newline, not at the
  rendered text between newlines.
\<close>

theorem marker_replaced_in_host_text:
  "script_at (Some [0]) (alloc [marker @ nl # ''x'']) 0 = Inr (Some (marker @ nl # ''x'')) \<and>
   rerender_scripts example_externals (Some [0]) (alloc [marker @ nl # ''x''])
     (example_script_doc ''old'')
     = Inr (example_script_doc (nl # ''x'' @ [nl])) \<and>
   host_text (recastPrint example_externals (Some (marker @ nl # ''x'')))
     = nl # marker @ nl # ''x'' @ [nl] \<and>
   nl # marker @ nl # ''x'' @ [nl] \<noteq> nl # ''x'' @ [nl]"
  by code_simp

lemma example_script_children:
  "js_prop (example_script_doc v) (Key ''children'') = JArr [example_script_host v]"
  by (simp add: example_script_doc_def seg_key_def lookup_def)

lemma example_script_rerender:
  "rerender_scripts example_externals (Some [0]) (alloc [''y'']) (example_script_doc ''old'')
     = Inr (example_script_doc (nl # ''y'' @ [nl]))"
  by code_simp

lemma example_script_is_host: "is_script_host (example_script_host ''old'') = Inr True"
  by code_simp

lemma example_script_at:
  "script_at (Some [0]) (alloc [''y'']) 0 = Inr (Some ''y'')"
  by code_simp

lemma example_script_host_text:
  "host_text (replace_marker (recastPrint example_externals (Some ''y''))) = nl # ''y'' @ [nl]"
  by code_simp

theorem script_hosts_rerendered_before_diff_witness:
  "rerender_scripts example_externals (Some [0]) (alloc [''y'']) (example_script_doc ''old'')
     = Inr (example_script_doc (nl # ''y'' @ [nl])) \<and>
   (\<exists>nodes'.
      js_prop (example_script_doc (nl # ''y'' @ [nl])) (Key ''children'') = JArr nodes' \<and>
      length nodes' = 1 \<and>
      get (nodes' ! 0) [Key ''children'', Idx 0, Key ''value''] = JStr (nl # ''y'' @ [nl]))"
proof -
  from script_hosts_rerendered_before_diff[OF example_script_children example_script_rerender,
      THEN conjunct1]
  obtain nodes' where
    c: "js_prop (example_script_doc (nl # ''y'' @ [nl])) (Key ''children'') = JArr nodes'" and
    l: "length nodes' = length [example_script_host ''old'']" and
    a: "\<forall>j<length [example_script_host ''old''].
          if is_script_host ([example_script_host ''old''] ! j) = Inr True
          then \<exists>p. script_at (Some [0]) (alloc [''y''])
                      (host_index [example_script_host ''old''] j) = Inr p \<and>
                   get (nodes' ! j) [Key ''children'', Idx 0, Key ''value'']
                     = JStr (host_text (replace_marker (recastPrint example_externals p)))
          else nodes' ! j = [example_script_host ''old''] ! j"
    by blast
  from a have "if is_script_host ([example_script_host ''old''] ! 0) = Inr True
          then \<exists>p. script_at (Some [0]) (alloc [''y''])
                      (host_index [example_script_host ''old''] 0) = Inr p \<and>
                   get (nodes' ! 0) [Key ''children'', Idx 0, Key ''value'']
                     = JStr (host_text (replace_marker (recastPrint example_externals p)))
          else nodes' ! 0 = [example_script_host ''old''] ! 0"
    by simp
  then have "get (nodes' ! 0) [Key ''children'', Idx 0, Key ''value''] = JStr (nl # ''y'' @ [nl])"
    using example_script_is_host example_script_at example_script_host_text
    by (auto simp: host_index_0)
  with c l example_script_rerender show ?thesis by simp
qed

end
